theory Spec2Isabelle
  imports Complex_Main
begin

section \<open>Dependent-closure traversal (\<open>get_all_dependent_tasks\<close>)\<close>

text \<open>
  The dependency map is a JavaScript object used as a dictionary from task ids to the
  array of ids of the tasks that depend on them. Reading a key that was never written
  yields \<open>undefined\<close>, so the elements of the working arrays of the traversal are
  either an id or \<open>undefined\<close>: \<open>None\<close> stands for \<open>undefined\<close>.
  (Keys inherited from \<open>Object.prototype\<close> are not modelled.)
\<close>

type_synonym dependencyMap = "string \<rightharpoonup> string list"

type_synonym js_id = "string option"

text \<open>A property key is converted to a string: \<open>undefined\<close> reads the key \<open>"undefined"\<close>.\<close>

definition property_key :: "js_id \<Rightarrow> string" where
  "property_key k = (case k of None \<Rightarrow> ''undefined'' | Some s \<Rightarrow> s)"

text \<open>
  \<open>acc.concat(this.dependencyMap[curr])\<close>: an array argument is spread, any other
  argument (here \<open>undefined\<close>) is appended as one element.
\<close>

definition concat_lookup :: "dependencyMap \<Rightarrow> js_id list \<Rightarrow> js_id \<Rightarrow> js_id list" where
  "concat_lookup m acc cur =
     (case m (property_key cur) of None \<Rightarrow> acc @ [None] | Some ids \<Rightarrow> acc @ map Some ids)"

definition collect_deps :: "dependencyMap \<Rightarrow> js_id list \<Rightarrow> js_id list" where
  "collect_deps m to_process = foldl (concat_lookup m) [] to_process"

text \<open>
  The \<open>while (to_process.length)\<close> loop. It need not terminate, so the loop is a
  partial function: \<open>None\<close> means that it never returns.
\<close>

partial_function (option) dependents_loop ::
  "dependencyMap \<Rightarrow> js_id list \<Rightarrow> js_id list \<Rightarrow> js_id list option" where
  "dependents_loop m out to_process =
     (if to_process = [] then Some out
      else let deps = collect_deps m to_process
           in dependents_loop m (out @ deps) (filter (\<lambda>d. d \<notin> set to_process) deps))"

declare dependents_loop.simps [code]

text \<open>\<open>out.filter(Boolean)\<close> drops \<open>undefined\<close> and the empty string.\<close>

fun truthy_ids :: "js_id list \<Rightarrow> string list" where
  "truthy_ids [] = []"
| "truthy_ids (None # xs) = truthy_ids xs"
| "truthy_ids (Some s # xs) = (if s = [] then truthy_ids xs else s # truthy_ids xs)"

definition get_all_dependent_tasks :: "dependencyMap \<Rightarrow> string \<Rightarrow> string list option" where
  "get_all_dependent_tasks m task_id =
     map_option truthy_ids (dependents_loop m [] [Some task_id])"

definition cyclic_map :: dependencyMap where
  "cyclic_map = [''A'' \<mapsto> [''B''], ''B'' \<mapsto> [''A'']]"

definition diamond_map :: dependencyMap where
  "diamond_map = [''A'' \<mapsto> [''B'', ''C''], ''B'' \<mapsto> [''D''], ''C'' \<mapsto> [''D'']]"


section \<open>Task resolver (\<open>setup_tasks\<close>)\<close>

subsection \<open>Dates\<close>

text \<open>
  A point in time is the number of milliseconds since the epoch, read in local time
  (the value a JavaScript \<open>Date\<close> holds). A Date that could not be built
  (\<open>undefined\<close> or \<open>Invalid Date\<close>) is \<open>None\<close>.
\<close>

type_synonym date = "int option"

text \<open>
  The raw \<open>start\<close> and \<open>end\<close> fields of a task: a string, a \<open>Date\<close> object
  (taken to hold a valid time), or nothing (\<open>undefined\<close> or \<open>null\<close>).
\<close>

datatype raw_date = Absent | RStr string | RDate int

text \<open>JavaScript truthiness of such a field: only nothing and the empty string are falsy.\<close>

fun truthy :: "raw_date \<Rightarrow> bool" where
  "truthy Absent = False"
| "truthy (RStr s) = (s \<noteq> [])"
| "truthy (RDate d) = True"

text \<open>
  The module \<open>dateUtils\<close> and \<open>Math.random\<close> are not part of the sources at hand.
  What the resolver needs of them and the interface does not fix is a parameter:
  the parser of date strings, the difference of two dates in years, the current
  day, and the random suffix drawn for the task at a given position.
\<close>

record environment =
  parse_string :: "string \<Rightarrow> int option"
  diff_year :: "int \<Rightarrow> int \<Rightarrow> rat"
  today :: int
  random_suffix :: "nat \<Rightarrow> string"

text \<open>
  Modelled from the spec: \<open>dateUtils.parse(value) -> concrete date or failure\<close>
  (\<open>dateUtils\<close> is missing). A \<open>Date\<close> is returned as it is, nothing is a
  failure, the empty string is no date, any other string goes to the parser.
\<close>

fun parse :: "environment \<Rightarrow> raw_date \<Rightarrow> date" where
  "parse env Absent = None"
| "parse env (RDate d) = Some d"
| "parse env (RStr s) = (if s = [] then None else parse_string env s)"

datatype time_unit = Hour | Day

definition ms_per_hour :: int where
  "ms_per_hour = 3600000"

definition ms_per_day :: int where
  "ms_per_day = 24 * ms_per_hour"

fun unit_ms :: "time_unit \<Rightarrow> int" where
  "unit_ms Hour = ms_per_hour"
| "unit_ms Day = ms_per_day"

text \<open>
  Modelled from the spec: \<open>dateUtils.add(date, amount, unit)\<close> (\<open>dateUtils\<close> is
  missing), for the units the resolver uses. A day is 24 hours (no daylight-saving
  shift); adding to a failed date fails.
\<close>

definition add :: "date \<Rightarrow> int \<Rightarrow> time_unit \<Rightarrow> date" where
  "add d n u = map_option (\<lambda>t. t + n * unit_ms u) d"

text \<open>
  Modelled from the spec: \<open>dateUtils.diff(a, b, unit) -> numeric\<close> (\<open>dateUtils\<close> is
  missing). With a failed date the difference is \<open>NaN\<close>, and \<open>NaN > 10\<close> is false.
\<close>

definition diff_exceeds_10_years :: "environment \<Rightarrow> date \<Rightarrow> date \<Rightarrow> bool" where
  "diff_exceeds_10_years env a b =
     (case (a, b) of (Some x, Some y) \<Rightarrow> diff_year env x y > 10 | _ \<Rightarrow> False)"

text \<open>
  Modelled from the spec: \<open>dateUtils.get_date_values(date) -> component breakdown\<close>
  (\<open>dateUtils\<close> is missing). Only the components after the third are read
  (\<open>.slice(3)\<close>): hours, minutes, seconds, milliseconds. For a failed date every
  component is \<open>NaN\<close>, which is not \<open>0\<close>.
\<close>

definition time_values :: "int \<Rightarrow> int list" where
  "time_values t =
     [(t mod ms_per_day) div ms_per_hour, (t mod ms_per_hour) div 60000,
      (t mod 60000) div 1000, t mod 1000]"

definition zero_time_components :: "date \<Rightarrow> bool" where
  "zero_time_components d =
     (case d of None \<Rightarrow> False | Some t \<Rightarrow> list_all (\<lambda>v. v = 0) (time_values t))"

text \<open>Comparison of two Dates with \<open>>\<close>: false as soon as one of them is no date.\<close>

definition date_gt :: "date \<Rightarrow> date \<Rightarrow> bool" where
  "date_gt a b = (case (a, b) of (Some x, Some y) \<Rightarrow> x > y | _ \<Rightarrow> False)"

subsection \<open>Tasks\<close>

text \<open>
  The raw \<open>dependencies\<close> field: a string, a list of ids, or nothing. The resolved
  field is the list of ids, or \<open>undefined\<close> (\<open>None\<close>).
\<close>

datatype raw_dependencies = DepsAbsent | DepsStr string | DepsList "string list"

record Task =
  t_id :: "string option"
  t_name :: string
  t_start :: raw_date
  t_end :: raw_date
  t_progress :: rat
  t_dependencies :: raw_dependencies
  t_custom_class :: "string option"

record ResolvedTask =
  r_id :: string
  r_name :: string
  r_start :: raw_date
  r_end :: raw_date
  r_progress :: rat
  r_custom_class :: "string option"
  invalid :: bool
  indexResolved :: nat
  endResolved :: date
  dependencies :: "string list option"
  startResolved :: date

text \<open>\<open>String.prototype.split(',')\<close>: the empty string gives one empty entry.\<close>

fun split_comma :: "string \<Rightarrow> string list" where
  "split_comma [] = [[]]"
| "split_comma (c # cs) =
     (if c = CHR '','' then [] # split_comma cs
      else (case split_comma cs of [] \<Rightarrow> [[c]] | w # ws \<Rightarrow> (c # w) # ws))"

text \<open>\<open>String.prototype.trim\<close>, on ASCII strings: blanks, tabs and line terminators.\<close>

definition is_space :: "char \<Rightarrow> bool" where
  "is_space c = (c \<in> set [CHR '' '', CHR 0x09, CHR 0x0A, CHR 0x0B, CHR 0x0C, CHR 0x0D])"

definition trim :: "string \<Rightarrow> string" where
  "trim s = rev (dropWhile is_space (rev (dropWhile is_space s)))"

definition parse_dependency_string :: "string \<Rightarrow> string list" where
  "parse_dependency_string s = filter (\<lambda>d. d \<noteq> []) (map trim (split_comma s))"

text \<open>Every array is truthy, the empty one too.\<close>

definition array_truthy :: "string list \<Rightarrow> bool" where
  "array_truthy a = True"

text \<open>
  The local variable \<open>dependencies\<close> starts as \<open>[]\<close>; the second branch tests this
  local variable, not the task's field, and then copies the field as it is.
\<close>

definition resolve_dependencies :: "raw_dependencies \<Rightarrow> string list option" where
  "resolve_dependencies raw =
     (let dependencies = [] in
      case raw of
        DepsStr s \<Rightarrow> Some (parse_dependency_string s)
      | _ \<Rightarrow> if array_truthy dependencies
             then (case raw of DepsList l \<Rightarrow> Some l | _ \<Rightarrow> None)
             else Some dependencies)"

text \<open>
  The resolver only asks whether the id is falsy; a missing id and the empty id both
  are, so the resolved record holds a missing id as the empty string.
\<close>

definition id_or_empty :: "string option \<Rightarrow> string" where
  "id_or_empty i = (case i of None \<Rightarrow> [] | Some s \<Rightarrow> s)"

definition id_falsy :: "string \<Rightarrow> bool" where
  "id_falsy s = (s = [])"

definition generateId :: "environment \<Rightarrow> nat \<Rightarrow> ResolvedTask \<Rightarrow> string" where
  "generateId env i task = r_name task @ ''_'' @ random_suffix env i"

text \<open>
  The body of the \<open>tasks.map\<close> callback, one definition for each of its statements,
  in the order of the source.
\<close>

definition spread_task :: "environment \<Rightarrow> nat \<Rightarrow> Task \<Rightarrow> ResolvedTask" where
  "spread_task env i task =
     \<lparr> r_id = id_or_empty (t_id task), r_name = t_name task, r_start = t_start task,
       r_end = t_end task, r_progress = t_progress task,
       r_custom_class = t_custom_class task, invalid = False,
       indexResolved = i, endResolved = parse env (t_end task),
       dependencies = resolve_dependencies (t_dependencies task),
       startResolved = parse env (t_start task) \<rparr>"

definition clamp_duration :: "environment \<Rightarrow> ResolvedTask \<Rightarrow> ResolvedTask" where
  "clamp_duration env r =
     (if diff_exceeds_10_years env (endResolved r) (startResolved r)
      then r\<lparr>r_end := Absent\<rparr> else r)"

definition repair_both_missing :: "environment \<Rightarrow> ResolvedTask \<Rightarrow> ResolvedTask" where
  "repair_both_missing env r =
     (if \<not> truthy (r_start r) \<and> \<not> truthy (r_end r)
      then r\<lparr>startResolved := Some (today env), endResolved := add (Some (today env)) 2 Day\<rparr>
      else r)"

definition repair_start_missing :: "ResolvedTask \<Rightarrow> ResolvedTask" where
  "repair_start_missing r =
     (if \<not> truthy (r_start r) \<and> truthy (r_end r)
      then r\<lparr>startResolved := add (endResolved r) (- 2) Day\<rparr> else r)"

definition repair_end_missing :: "ResolvedTask \<Rightarrow> ResolvedTask" where
  "repair_end_missing r =
     (if truthy (r_start r) \<and> \<not> truthy (r_end r)
      then r\<lparr>endResolved := add (startResolved r) 2 Day\<rparr> else r)"

definition full_last_day :: "ResolvedTask \<Rightarrow> ResolvedTask" where
  "full_last_day r =
     (if zero_time_components (endResolved r)
      then r\<lparr>endResolved := add (endResolved r) 24 Hour\<rparr> else r)"

definition flag_invalid :: "ResolvedTask \<Rightarrow> ResolvedTask" where
  "flag_invalid r = (if \<not> truthy (r_start r) \<or> \<not> truthy (r_end r) then r\<lparr>invalid := True\<rparr> else r)"

definition assign_id :: "environment \<Rightarrow> nat \<Rightarrow> ResolvedTask \<Rightarrow> ResolvedTask" where
  "assign_id env i r = (if id_falsy (r_id r) then r\<lparr>r_id := generateId env i r\<rparr> else r)"

definition setup_task :: "environment \<Rightarrow> nat \<Rightarrow> Task \<Rightarrow> ResolvedTask" where
  "setup_task env i task =
     assign_id env i (flag_invalid (full_last_day (repair_end_missing (repair_start_missing
       (repair_both_missing env (clamp_duration env (spread_task env i task)))))))"

datatype error = TypeError

text \<open>
  \<open>setupDependencies\<close>: \<open>t.dependencies.forEach\<close> throws a \<open>TypeError\<close> when the
  field is \<open>undefined\<close>.
\<close>

definition push_dependent :: "string \<Rightarrow> dependencyMap \<Rightarrow> string \<Rightarrow> dependencyMap" where
  "push_dependent tid m d = m(d \<mapsto> (case m d of None \<Rightarrow> [] | Some ids \<Rightarrow> ids) @ [tid])"

fun setupDependencies_from :: "dependencyMap \<Rightarrow> ResolvedTask list \<Rightarrow> error + dependencyMap" where
  "setupDependencies_from m [] = Inr m"
| "setupDependencies_from m (t # ts) =
     (case dependencies t of
        None \<Rightarrow> Inl TypeError
      | Some ds \<Rightarrow> setupDependencies_from (foldl (push_dependent (r_id t)) m ds) ts)"

definition setupDependencies :: "ResolvedTask list \<Rightarrow> error + dependencyMap" where
  "setupDependencies ts = setupDependencies_from Map.empty ts"

definition resolve_all :: "environment \<Rightarrow> Task list \<Rightarrow> ResolvedTask list" where
  "resolve_all env tasks = map (\<lambda>(i, t). setup_task env i t) (enumerate 0 tasks)"

definition setup_tasks ::
  "environment \<Rightarrow> Task list \<Rightarrow> error + (ResolvedTask list \<times> dependencyMap)" where
  "setup_tasks env tasks =
     (let ts = resolve_all env tasks in
      case setupDependencies ts of Inl e \<Rightarrow> Inl e | Inr m \<Rightarrow> Inr (ts, m))"

text \<open>
  An environment for concrete runs: no string is a date, a year has 365 days, today is
  the epoch, the random suffix is a fixed word.
\<close>

definition year_of_365_days :: "int \<Rightarrow> int \<Rightarrow> rat" where
  "year_of_365_days a b = of_int (a - b) / of_int (365 * ms_per_day)"

definition no_date_string :: "string \<Rightarrow> int option" where
  "no_date_string s = None"

definition fixed_suffix :: "nat \<Rightarrow> string" where
  "fixed_suffix i = ''x''"

definition sample_env :: environment where
  "sample_env = \<lparr> parse_string = no_date_string, diff_year = year_of_365_days,
                  today = 0, random_suffix = fixed_suffix \<rparr>"

definition sample_task :: "raw_date \<Rightarrow> raw_date \<Rightarrow> raw_dependencies \<Rightarrow> Task" where
  "sample_task s e d =
     \<lparr> t_id = Some ''T1'', t_name = ''task'', t_start = s, t_end = e, t_progress = 0,
       t_dependencies = d, t_custom_class = None \<rparr>"

text \<open>The span of a resolved task, when both bounds are dates.\<close>

definition resolved_span :: "ResolvedTask \<Rightarrow> int option" where
  "resolved_span r =
     (case (startResolved r, endResolved r) of (Some s, Some e) \<Rightarrow> Some (e - s) | _ \<Rightarrow> None)"


text \<open>The last-day rule as a function on dates, and whether the raw end survives the clamp.\<close>

definition end_of_day :: "date \<Rightarrow> date" where
  "end_of_day d = (if zero_time_components d then add d 24 Hour else d)"

definition end_kept :: "environment \<Rightarrow> Task \<Rightarrow> bool" where
  "end_kept env task \<longleftrightarrow> truthy (t_end task)
     \<and> \<not> diff_exceeds_10_years env (parse env (t_end task)) (parse env (t_start task))"

text \<open>A raw bound that is missing or is a date, and a pair of bounds in order.\<close>

definition repairable :: "environment \<Rightarrow> raw_date \<Rightarrow> bool" where
  "repairable env x \<longleftrightarrow> \<not> truthy x \<or> parse env x \<noteq> None"

definition ordered_bounds :: "environment \<Rightarrow> Task \<Rightarrow> bool" where
  "ordered_bounds env task =
     (case parse env (t_start task) of
        None \<Rightarrow> True
      | Some s \<Rightarrow> (case parse env (t_end task) of
                    None \<Rightarrow> True
                  | Some e \<Rightarrow> s < e \<or> (s = e \<and> zero_time_components (Some e))))"

definition inverted_task :: Task where
  "inverted_task = sample_task (RDate (10 * ms_per_day)) (RDate (5 * ms_per_day)) (DepsList [])"

definition one_day_task :: Task where
  "one_day_task = sample_task (RDate 0) (RDate ms_per_day) (DepsList [])"

definition start_only_task :: Task where
  "start_only_task = sample_task (RDate 0) Absent (DepsList [])"

definition afternoon_start_task :: Task where
  "afternoon_start_task = sample_task (RDate (15 * ms_per_hour)) Absent (DepsList [])"

definition end_only_task :: Task where
  "end_only_task = sample_task Absent (RDate (15 * ms_per_hour)) (DepsList [])"

definition no_dependencies_task :: Task where
  "no_dependencies_task = sample_task (RDate 0) (RDate ms_per_day) DepsAbsent"

definition long_task :: Task where
  "long_task = sample_task (RDate 0) (RDate (4000 * ms_per_day)) (DepsList [])"

section \<open>View scale (\<open>update_view_scale\<close>, \<open>change_view_mode\<close>)\<close>

text \<open>
  The options that the view scale writes and the interaction reads. Numbers are
  rationals: the values involved are pixel counts and hours.
\<close>

record Options =
  view_mode :: string
  step :: rat
  column_width :: rat

definition VIEW_MODE :: "string list" where
  "VIEW_MODE = [''Quarter Day'', ''Half Day'', ''Day'', ''Week'', ''Month'', ''Year'']"

text \<open>
  \<open>update_view_scale\<close> returns the new options and what it wrote with
  \<open>console.error\<close>. The view mode is stored before the \<open>switch\<close>.
\<close>

definition update_view_scale :: "string \<Rightarrow> Options \<Rightarrow> Options \<times> string list" where
  "update_view_scale mode opts =
     (let o1 = opts\<lparr>view_mode := mode\<rparr> in
      if mode = ''Quarter Day'' then (o1\<lparr>step := 24 / 4, column_width := 38\<rparr>, [])
      else if mode = ''Half Day'' then (o1\<lparr>step := 24 / 2, column_width := 38\<rparr>, [])
      else if mode = ''Day'' then (o1\<lparr>step := 24, column_width := 38\<rparr>, [])
      else if mode = ''Week'' then (o1\<lparr>step := 24 * 7, column_width := 140\<rparr>, [])
      else if mode = ''Month'' then (o1\<lparr>step := 24 * 30, column_width := 120\<rparr>, [])
      else if mode = ''Year'' then (o1\<lparr>step := 24 * 365, column_width := 120\<rparr>, [])
      else (o1, [''Unknown view mode used: '' @ mode]))"

text \<open>
  \<open>change_view_mode\<close>: the mode defaults to the current one. After the view scale
  the method calls \<open>setup_dates\<close> and \<open>render\<close>, and only then \<open>trigger_event\<close>.
  Those two fill the date list and draw the chart through \<open>dateUtils\<close>, \<open>svgUtils\<close>,
  \<open>Bar\<close>, \<open>Arrow\<close> and the document, which are missing. They are parameters here:
  given the options they find, each returns (\<open>None\<close>) or throws (\<open>Some\<close> of the
  error); in the source neither writes the options. A throw leaves the method at once,
  with the options and the console as they are by then, and no event.
\<close>

record view_change =
  new_options :: Options
  console :: "string list"
  thrown :: "error option"
  fired :: "(string \<times> string list) list"

definition change_view_mode ::
  "(Options \<Rightarrow> error option) \<Rightarrow> (Options \<Rightarrow> error option) \<Rightarrow> string option \<Rightarrow> Options
     \<Rightarrow> view_change" where
  "change_view_mode setup_dates render mode_arg opts =
     (let mode = (case mode_arg of None \<Rightarrow> view_mode opts | Some m \<Rightarrow> m);
          (opts', errors) = update_view_scale mode opts
      in case setup_dates opts' of
           Some e \<Rightarrow> \<lparr> new_options = opts', console = errors, thrown = Some e, fired = [] \<rparr>
         | None \<Rightarrow>
             (case render opts' of
                Some e \<Rightarrow> \<lparr> new_options = opts', console = errors, thrown = Some e, fired = [] \<rparr>
              | None \<Rightarrow> \<lparr> new_options = opts', console = errors, thrown = None,
                          fired = [(''view_change'', [mode])] \<rparr>))"

text \<open>A collaborator that returns, and one that throws.\<close>

definition returns :: "Options \<Rightarrow> error option" where
  "returns opts = None"

definition throws :: "Options \<Rightarrow> error option" where
  "throws opts = Some TypeError"

definition default_options :: Options where
  "default_options = \<lparr> view_mode = ''Day'', step = 24, column_width = 30 \<rparr>"

text \<open>The options after the constructor has set the default view mode.\<close>

definition day_options :: Options where
  "day_options = new_options (change_view_mode returns returns None default_options)"

section \<open>Snapping (\<open>get_snap_position\<close>)\<close>

definition view_is :: "Options \<Rightarrow> string \<Rightarrow> bool" where
  "view_is opts mode = (view_mode opts = mode)"

text \<open>
  The remainder operator \<open>%\<close> of JavaScript truncates the quotient toward zero, so
  the remainder has the sign of the dividend. (For a zero divisor JavaScript gives
  \<open>NaN\<close>; the column width is positive wherever the function is used below.)
\<close>

definition truncate_quotient :: "rat \<Rightarrow> int" where
  "truncate_quotient q = (if 0 \<le> q then \<lfloor>q\<rfloor> else \<lceil>q\<rceil>)"

definition js_rem :: "rat \<Rightarrow> rat \<Rightarrow> rat" where
  "js_rem a b = a - b * of_int (truncate_quotient (a / b))"

definition get_snap_position :: "Options \<Rightarrow> rat \<Rightarrow> rat" where
  "get_snap_position opts dx =
     (let odx = dx in
      if view_is opts ''Week'' then
        (let rem = js_rem dx (column_width opts / 7)
         in odx - rem + (if rem < column_width opts / 14 then 0 else column_width opts / 7))
      else if view_is opts ''Month'' then
        (let rem = js_rem dx (column_width opts / 30)
         in odx - rem + (if rem < column_width opts / 60 then 0 else column_width opts / 30))
      else
        (let rem = js_rem dx (column_width opts)
         in odx - rem + (if rem < column_width opts / 2 then 0 else column_width opts)))"

text \<open>
  The granularity of a view mode, and rounding as the specification words it: to the
  nearest multiple of the granularity, a tie going away from zero.
\<close>

definition granularity :: "Options \<Rightarrow> rat" where
  "granularity opts =
     (if view_is opts ''Week'' then column_width opts / 7
      else if view_is opts ''Month'' then column_width opts / 30
      else column_width opts)"

definition nearest_snap :: "rat \<Rightarrow> rat \<Rightarrow> rat" where
  "nearest_snap g dx = sgn dx * g * of_int \<lfloor>\<bar>dx\<bar> / g + 1 / 2\<rfloor>"

text \<open>The three branches of \<open>get_snap_position\<close> share one computation.\<close>

definition snap_to :: "rat \<Rightarrow> rat \<Rightarrow> rat" where
  "snap_to g dx = dx - js_rem dx g + (if js_rem dx g < g / 2 then 0 else g)"

section \<open>Interaction (\<open>bind_bar_events\<close>, \<open>bind_bar_progress\<close>)\<close>

subsection \<open>Bars\<close>

text \<open>
  A bar, as far as the handlers read and write it: the id of its task, the position and
  width of its rectangle \<open>$bar\<close> with the values the drag handlers attach to it
  (\<open>ox\<close>, \<open>oy\<close>, \<open>owidth\<close>, \<open>finaldx\<close>), and the width of its progress rectangle
  \<open>$bar_progress\<close> with the values the progress handlers attach to it. The attached
  values are only read after a pointer-down has written them.
\<close>

record Bar =
  bar_task_id :: string
  bar_x :: rat
  bar_y :: rat
  bar_width :: rat
  ox :: rat
  oy :: rat
  owidth :: rat
  finaldx :: rat
  progress_width :: rat
  progress_owidth :: rat
  progress_finaldx :: rat
  min_dx :: rat
  max_dx :: rat

text \<open>
  The handlers hold references to bar objects and mutate them. The bars live in the list
  \<open>this.bars\<close>; a reference is a position in that list. \<open>get_bar\<close> finds the first
  bar of a task id, or nothing (\<open>undefined\<close>).
\<close>

fun get_bar :: "Bar list \<Rightarrow> string \<Rightarrow> nat option" where
  "get_bar [] tid = None"
| "get_bar (b # bs) tid =
     (if bar_task_id b = tid then Some 0 else map_option Suc (get_bar bs tid))"

text \<open>\<open>refs.forEach\<close> with a callback that mutates the bar it is given.\<close>

definition for_each_bar :: "(Bar \<Rightarrow> Bar) \<Rightarrow> nat list \<Rightarrow> Bar list \<Rightarrow> Bar list" where
  "for_each_bar f refs all_bars = foldl (\<lambda>bs i. bs[i := f (bs ! i)]) all_bars refs"

text \<open>
  Modelled from the spec: \<open>Bar.update_bar_position({x, width})\<close> (the class \<open>Bar\<close> is
  missing). The specification has the geometry of a bar set by it, each of x and width
  only when given, and has a resize past the opposite edge clamped, never allowed to
  produce a negative width. The handlers in the source do not clamp, so the clamp is
  here: a width below zero is held at zero.
\<close>

definition update_bar_position :: "rat option \<Rightarrow> rat option \<Rightarrow> Bar \<Rightarrow> Bar" where
  "update_bar_position x width b =
     (let b1 = (case x of None \<Rightarrow> b | Some v \<Rightarrow> b\<lparr>bar_x := v\<rparr>)
      in case width of None \<Rightarrow> b1 | Some w \<Rightarrow> b1\<lparr>bar_width := max 0 w\<rparr>)"

subsection \<open>Dragging and resizing\<close>

text \<open>The variables closed over by the handlers of \<open>bind_bar_events\<close>.\<close>

record drag_gesture =
  is_dragging :: bool
  x_on_start :: rat
  y_on_start :: rat
  is_resizing_left :: bool
  is_resizing_right :: bool
  parent_bar_id :: "string option"
  bars :: "nat list"
  bar_being_dragged :: "string option"

definition action_in_progress :: "drag_gesture \<Rightarrow> bool" where
  "action_in_progress g \<longleftrightarrow> is_dragging g \<or> is_resizing_left g \<or> is_resizing_right g"

text \<open>The element under the pointer, by the class that the handler tests.\<close>

datatype element_class = HandleLeft | HandleRight | BarWrapper | HandleProgress

fun grab :: "element_class \<Rightarrow> drag_gesture \<Rightarrow> drag_gesture" where
  "grab HandleLeft g = g\<lparr>is_resizing_left := True\<rparr>"
| "grab HandleRight g = g\<lparr>is_resizing_right := True\<rparr>"
| "grab BarWrapper g = g\<lparr>is_dragging := True\<rparr>"
| "grab HandleProgress g = g"

definition snapshot :: "Bar \<Rightarrow> Bar" where
  "snapshot b = b\<lparr>ox := bar_x b, oy := bar_y b, owidth := bar_width b, finaldx := 0\<rparr>"

text \<open>
  The \<open>mousedown\<close> handler, on an element of the bar with task id \<open>data_id\<close>. The
  result is \<open>None\<close> when \<open>get_all_dependent_tasks\<close> does not return, and a
  \<open>TypeError\<close> when one of the ids has no bar (the state after the throw is not
  followed).
\<close>

definition mousedown ::
  "dependencyMap \<Rightarrow> element_class \<Rightarrow> string \<Rightarrow> rat \<times> rat \<Rightarrow> drag_gesture \<times> Bar list
     \<Rightarrow> (error + drag_gesture \<times> Bar list) option" where
  "mousedown m element data_id offset s =
     (let (g, all_bars) = s;
          g1 = (grab element g)\<lparr>x_on_start := fst offset, y_on_start := snd offset,
                                 parent_bar_id := Some data_id\<rparr>
      in case get_all_dependent_tasks m data_id of
           None \<Rightarrow> None
         | Some dependents \<Rightarrow>
             (let ids = data_id # dependents in
              case those (map (get_bar all_bars) ids) of
                None \<Rightarrow> Some (Inl TypeError)
              | Some refs \<Rightarrow>
                  Some (Inr (g1\<lparr>bars := refs, bar_being_dragged := Some data_id\<rparr>,
                             for_each_bar snapshot refs all_bars))))"

text \<open>The body of the \<open>bars.forEach\<close> callback of the \<open>mousemove\<close> handler.\<close>

definition move_bar :: "Options \<Rightarrow> drag_gesture \<Rightarrow> rat \<Rightarrow> Bar \<Rightarrow> Bar" where
  "move_bar opts g dx bar =
     (let b = bar\<lparr>finaldx := get_snap_position opts dx\<rparr> in
      if is_resizing_left g then
        (if parent_bar_id g = Some (bar_task_id b)
         then update_bar_position (Some (ox b + finaldx b)) (Some (owidth b - finaldx b)) b
         else update_bar_position (Some (ox b + finaldx b)) None b)
      else if is_resizing_right g then
        (if parent_bar_id g = Some (bar_task_id b)
         then update_bar_position None (Some (owidth b + finaldx b)) b
         else b)
      else if is_dragging g then update_bar_position (Some (ox b + finaldx b)) None b
      else b)"

definition mousemove ::
  "Options \<Rightarrow> rat \<times> rat \<Rightarrow> drag_gesture \<times> Bar list \<Rightarrow> drag_gesture \<times> Bar list" where
  "mousemove opts offset s =
     (let (g, all_bars) = s in
      if \<not> action_in_progress g then s
      else (let dx = fst offset - x_on_start g
            in (g, for_each_bar (move_bar opts g dx) (bars g) all_bars)))"

text \<open>The \<open>mouseup\<close> handler on the document ends the gesture.\<close>

definition document_mouseup :: "drag_gesture \<Rightarrow> drag_gesture" where
  "document_mouseup g = g\<lparr>is_dragging := False, is_resizing_left := False, is_resizing_right := False\<rparr>"

text \<open>Move events in their order of arrival.\<close>

definition mousemoves ::
  "Options \<Rightarrow> (rat \<times> rat) list \<Rightarrow> drag_gesture \<times> Bar list \<Rightarrow> drag_gesture \<times> Bar list" where
  "mousemoves opts offsets s = foldl (\<lambda>s' offset. mousemove opts offset s') s offsets"

subsection \<open>Resizing the progress\<close>

text \<open>
  The variables closed over by the handlers of \<open>bind_bar_progress\<close>. \<open>bar\<close>,
  \<open>$bar_progress\<close> and \<open>$bar\<close> are set together and belong to one bar: one
  reference, \<open>null\<close> before the first pointer-down.
\<close>

record progress_gesture =
  progress_x_on_start :: rat
  progress_y_on_start :: rat
  is_resizing :: bool
  progress_bar :: "nat option"

definition progress_snapshot :: "Bar \<Rightarrow> Bar" where
  "progress_snapshot b =
     b\<lparr>progress_finaldx := 0, progress_owidth := progress_width b,
       min_dx := - progress_width b, max_dx := bar_width b - progress_width b\<rparr>"

text \<open>The \<open>mousedown\<close> handler on the progress handle; without a bar for the id it throws.\<close>

definition progress_mousedown ::
  "string \<Rightarrow> rat \<times> rat \<Rightarrow> progress_gesture \<times> Bar list \<Rightarrow> error + progress_gesture \<times> Bar list" where
  "progress_mousedown data_id offset s =
     (let (p, all_bars) = s;
          p1 = p\<lparr>is_resizing := True, progress_x_on_start := fst offset,
                 progress_y_on_start := snd offset\<rparr>
      in case get_bar all_bars data_id of
           None \<Rightarrow> Inl TypeError
         | Some i \<Rightarrow> Inr (p1\<lparr>progress_bar := Some i\<rparr>,
                         all_bars[i := progress_snapshot (all_bars ! i)]))"

text \<open>The two clamps of the \<open>mousemove\<close> handler, in the order of the source.\<close>

definition clamp_dx :: "Bar \<Rightarrow> rat \<Rightarrow> rat" where
  "clamp_dx b dx =
     (let dx1 = (if dx > max_dx b then max_dx b else dx)
      in if dx1 < min_dx b then min_dx b else dx1)"

definition resize_progress :: "rat \<Rightarrow> Bar \<Rightarrow> Bar" where
  "resize_progress dx b =
     b\<lparr>progress_width := progress_owidth b + clamp_dx b dx, progress_finaldx := clamp_dx b dx\<rparr>"

text \<open>
  The \<open>mousemove\<close> handler of the progress gesture. Reading \<open>$bar_progress.max_dx\<close>
  while the reference is still \<open>null\<close> throws.
\<close>

definition progress_mousemove ::
  "rat \<times> rat \<Rightarrow> progress_gesture \<times> Bar list \<Rightarrow> error + progress_gesture \<times> Bar list" where
  "progress_mousemove offset s =
     (let (p, all_bars) = s in
      if \<not> is_resizing p then Inr s
      else (let dx = fst offset - progress_x_on_start p in
            case progress_bar p of
              None \<Rightarrow> Inl TypeError
            | Some i \<Rightarrow> Inr (p, all_bars[i := resize_progress dx (all_bars ! i)])))"

fun progress_mousemoves ::
  "(rat \<times> rat) list \<Rightarrow> progress_gesture \<times> Bar list \<Rightarrow> error + progress_gesture \<times> Bar list" where
  "progress_mousemoves [] s = Inr s"
| "progress_mousemoves (offset # offsets) s =
     (case progress_mousemove offset s of
        Inl e \<Rightarrow> Inl e
      | Inr s' \<Rightarrow> progress_mousemoves offsets s')"

subsection \<open>A chart with two bars\<close>

text \<open>
  The scenario of the specification: T2 depends on T1. Bars of one column per day in the
  Day view, T1 three columns wide at 38, T2 two columns wide at 190, half done.
\<close>

definition sample_bar :: "string \<Rightarrow> rat \<Rightarrow> rat \<Rightarrow> rat \<Rightarrow> Bar" where
  "sample_bar tid x y w =
     \<lparr> bar_task_id = tid, bar_x = x, bar_y = y, bar_width = w, ox = 0, oy = 0, owidth = 0,
       finaldx = 0, progress_width = w / 2, progress_owidth = 0, progress_finaldx = 0,
       min_dx = 0, max_dx = 0 \<rparr>"

definition sample_bars :: "Bar list" where
  "sample_bars = [sample_bar ''T1'' 38 68 114, sample_bar ''T2'' 190 106 76]"


definition idle :: drag_gesture where
  "idle = \<lparr> is_dragging = False, x_on_start = 0, y_on_start = 0, is_resizing_left = False,
            is_resizing_right = False, parent_bar_id = None, bars = [],
            bar_being_dragged = None \<rparr>"

definition progress_idle :: progress_gesture where
  "progress_idle = \<lparr> progress_x_on_start = 0, progress_y_on_start = 0, is_resizing = False,
                     progress_bar = None \<rparr>"


text \<open>The state after a pointer-down on the progress handle of T2 at (228, 110).\<close>

definition progress_started :: "progress_gesture \<times> Bar list" where
  "progress_started =
     (case progress_mousedown ''T2'' (228, 110) (progress_idle, sample_bars) of
        Inr s \<Rightarrow> s
      | Inl e \<Rightarrow> (progress_idle, sample_bars))"

text \<open>Whether a run of progress moves returns, and the bars it leaves.\<close>

definition progress_returns :: "(rat \<times> rat) list \<Rightarrow> progress_gesture \<times> Bar list \<Rightarrow> bool" where
  "progress_returns offsets s =
     (case progress_mousemoves offsets s of Inr s' \<Rightarrow> True | Inl e \<Rightarrow> False)"

definition bars_after_progress ::
  "(rat \<times> rat) list \<Rightarrow> progress_gesture \<times> Bar list \<Rightarrow> Bar list" where
  "bars_after_progress offsets s =
     (case progress_mousemoves offsets s of Inr s' \<Rightarrow> snd s' | Inl e \<Rightarrow> [])"

section \<open>Transitive dependents\<close>

text \<open>
  The dependents of a task as the specification speaks of them: \<open>b\<close> is reached from
  \<open>a\<close> when a chain of "depends on me" edges of the dependency map leads from \<open>a\<close> to
  \<open>b\<close>, in one step or more.
\<close>

inductive reaches :: "dependencyMap \<Rightarrow> string \<Rightarrow> string \<Rightarrow> bool" for m a where
  direct: "m a = Some ids \<Longrightarrow> b \<in> set ids \<Longrightarrow> reaches m a b"
| further: "reaches m a b \<Longrightarrow> m b = Some ids \<Longrightarrow> c \<in> set ids \<Longrightarrow> reaches m a c"

code_pred reaches .

text \<open>What one lookup of the traversal appends for an entry of the work list.\<close>

definition successors :: "dependencyMap \<Rightarrow> js_id \<Rightarrow> js_id set" where
  "successors m a = set (concat_lookup m [] a)"

text \<open>A chart with a chain: T2 depends on T1, and T3 on T2.\<close>

definition chain_bars :: "Bar list" where
  "chain_bars =
     [sample_bar ''T1'' 38 68 114, sample_bar ''T2'' 190 106 76, sample_bar ''T3'' 304 144 38]"

definition chain_map :: dependencyMap where
  "chain_map = [''T1'' \<mapsto> [''T2''], ''T2'' \<mapsto> [''T3'']]"

definition chain_started :: "drag_gesture \<times> Bar list" where
  "chain_started =
     (case mousedown chain_map BarWrapper ''T1'' (100, 70) (idle, chain_bars) of
        Some (Inr s) \<Rightarrow> s
      | _ \<Rightarrow> (idle, chain_bars))"

section \<open>Properties of the traversal\<close>

lemma collect_deps_cyclic_A: "collect_deps cyclic_map [Some ''A''] = [Some ''B'']"
  by (simp add: cyclic_map_def collect_deps_def concat_lookup_def property_key_def)

lemma collect_deps_cyclic_B: "collect_deps cyclic_map [Some ''B''] = [Some ''A'']"
  by (simp add: cyclic_map_def collect_deps_def concat_lookup_def property_key_def)

text \<open>
  On the two-task cycle the work list alternates between \<open>[A]\<close> and \<open>[B]\<close>: an id
  is only compared with the work list of the current round, never with what has been
  collected. No run from either work list returns.
\<close>

lemma dependents_loop_cycle_never_returns:
  assumes "dependents_loop m out to_process = Some y"
  shows "m = cyclic_map \<longrightarrow> to_process \<noteq> [Some ''A''] \<and> to_process \<noteq> [Some ''B'']"
proof (rule dependents_loop.raw_induct
    [where P = "\<lambda>m out tp y. m = cyclic_map \<longrightarrow> tp \<noteq> [Some ''A''] \<and> tp \<noteq> [Some ''B'']",
      OF _ assms])
  fix f :: "dependencyMap \<Rightarrow> js_id list \<Rightarrow> js_id list \<Rightarrow> js_id list option"
  fix m out to_process y
  assume IH: "\<And>m out tp y. f m out tp = Some y \<Longrightarrow>
    m = cyclic_map \<longrightarrow> tp \<noteq> [Some ''A''] \<and> tp \<noteq> [Some ''B'']"
  assume step: "(if to_process = [] then Some out
      else let deps = collect_deps m to_process
           in f m (out @ deps) (filter (\<lambda>d. d \<notin> set to_process) deps)) = Some y"
  show "m = cyclic_map \<longrightarrow> to_process \<noteq> [Some ''A''] \<and> to_process \<noteq> [Some ''B'']"
  proof (intro impI conjI notI)
    assume m: "m = cyclic_map" and tp: "to_process = [Some ''A'']"
    from step have "f cyclic_map (out @ [Some ''B'']) [Some ''B''] = Some y"
      by (simp add: m tp collect_deps_cyclic_A Let_def)
    from IH[OF this] show False
      by simp
  next
    assume m: "m = cyclic_map" and tp: "to_process = [Some ''B'']"
    from step have "f cyclic_map (out @ [Some ''A'']) [Some ''A''] = Some y"
      by (simp add: m tp collect_deps_cyclic_B Let_def)
    from IH[OF this] show False
      by simp
  qed
qed

lemma get_all_dependent_tasks_cycle: "get_all_dependent_tasks cyclic_map ''A'' = None"
proof (cases "dependents_loop cyclic_map [] [Some ''A'']")
  case None
  then show ?thesis by (simp add: get_all_dependent_tasks_def)
next
  case (Some y)
  from dependents_loop_cycle_never_returns[OF this] show ?thesis by simp
qed

lemma get_all_dependent_tasks_diamond:
  "get_all_dependent_tasks diamond_map ''A'' = Some [''B'', ''C'', ''D'', ''D'']"
  unfolding get_all_dependent_tasks_def diamond_map_def
  by (simp add: dependents_loop.simps collect_deps_def concat_lookup_def property_key_def)

text \<open>A chain without cycle or shared dependent is traversed as expected.\<close>

lemma get_all_dependent_tasks_chain:
  "get_all_dependent_tasks [''T1'' \<mapsto> [''T2''], ''T2'' \<mapsto> [''T3'']] ''T1'' = Some [''T2'', ''T3'']"
  unfolding get_all_dependent_tasks_def
  by (simp add: dependents_loop.simps collect_deps_def concat_lookup_def property_key_def)

text \<open>
  Claim C1: for every dependency map, cyclic ones and ones with a task reachable by
  several paths included, \<open>get_all_dependent_tasks\<close> terminates and returns each
  reachable id exactly once. The code does not: when A depends on B and B depends on A,
  the call for A never returns (\<open>None\<close>), and when D depends on both B and C, which both
  depend on A, the call for A returns D twice.
\<close>

theorem get_all_dependent_tasks_cycle_diverges:
  "get_all_dependent_tasks cyclic_map ''A'' = None
   \<and> get_all_dependent_tasks diamond_map ''A'' = Some [''B'', ''C'', ''D'', ''D'']"
  using get_all_dependent_tasks_cycle get_all_dependent_tasks_diamond by simp

subsection \<open>What a returned traversal contains\<close>

text \<open>
  When the loop returns, what it returns is closed under the lookups: it holds the
  dependents of the task it started from, and the dependents of every id it holds. So
  every task reached from the start by a chain of "depends on me" edges is returned.
\<close>

lemma concat_lookup_append: "concat_lookup m acc a = acc @ concat_lookup m [] a"
  by (simp add: concat_lookup_def split: option.splits)

lemma set_foldl_concat_lookup:
  "set (foldl (concat_lookup m) acc to_process) = set acc \<union> (\<Union>a \<in> set to_process. successors m a)"
proof (induction to_process arbitrary: acc)
  case Nil
  show ?case by simp
next
  case (Cons a to_process)
  have "set (concat_lookup m acc a) = set acc \<union> successors m a"
    by (subst concat_lookup_append) (simp add: successors_def)
  then show ?case
    by (auto simp add: Cons)
qed

lemma set_collect_deps: "set (collect_deps m to_process) = (\<Union>a \<in> set to_process. successors m a)"
  by (simp add: collect_deps_def set_foldl_concat_lookup)

lemma dependents_loop_closed:
  assumes "dependents_loop m out to_process = Some y"
  shows "set out \<subseteq> set y
    \<and> (\<forall>a \<in> set to_process. successors m a \<subseteq> set y)
    \<and> (\<forall>c \<in> set y. c \<in> set out \<or> successors m c \<subseteq> set y)"
proof (rule dependents_loop.raw_induct
    [where P = "\<lambda>m out tp y. set out \<subseteq> set y
        \<and> (\<forall>a \<in> set tp. successors m a \<subseteq> set y)
        \<and> (\<forall>c \<in> set y. c \<in> set out \<or> successors m c \<subseteq> set y)", OF _ assms])
  fix f :: "dependencyMap \<Rightarrow> js_id list \<Rightarrow> js_id list \<Rightarrow> js_id list option"
  fix m out to_process y
  assume IH: "\<And>m out tp y. f m out tp = Some y \<Longrightarrow>
    set out \<subseteq> set y
        \<and> (\<forall>a \<in> set tp. successors m a \<subseteq> set y)
        \<and> (\<forall>c \<in> set y. c \<in> set out \<or> successors m c \<subseteq> set y)"
  assume step: "(if to_process = [] then Some out
      else let deps = collect_deps m to_process
           in f m (out @ deps) (filter (\<lambda>d. d \<notin> set to_process) deps)) = Some y"
  show "set out \<subseteq> set y
        \<and> (\<forall>a \<in> set to_process. successors m a \<subseteq> set y)
        \<and> (\<forall>c \<in> set y. c \<in> set out \<or> successors m c \<subseteq> set y)"
  proof (cases "to_process = []")
    case True
    with step show ?thesis by auto
  next
    case False
    define deps where "deps = collect_deps m to_process"
    from step False have "f m (out @ deps) (filter (\<lambda>d. d \<notin> set to_process) deps) = Some y"
      by (simp add: deps_def Let_def)
    from IH[OF this] have 1: "set out \<union> set deps \<subseteq> set y"
      and 2: "\<forall>a \<in> set deps - set to_process. successors m a \<subseteq> set y"
      and 3: "\<forall>c \<in> set y. c \<in> set out \<union> set deps \<or> successors m c \<subseteq> set y"
      by auto
    have 4: "\<forall>a \<in> set to_process. successors m a \<subseteq> set deps"
      by (auto simp add: deps_def set_collect_deps)
    from 1 2 3 4 show ?thesis
      by blast
  qed
qed

lemma dependents_loop_reaches:
  assumes "dependents_loop m [] [Some pid] = Some y" and "reaches m pid b"
  shows "Some b \<in> set y"
  using assms(2)
proof (induction rule: reaches.induct)
  case (direct ids b)
  then have "Some b \<in> successors m (Some pid)"
    by (simp add: successors_def concat_lookup_def property_key_def)
  with dependents_loop_closed[OF assms(1)] show ?case
    by auto
next
  case (further b ids c)
  then have "Some c \<in> successors m (Some b)"
    by (simp add: successors_def concat_lookup_def property_key_def)
  with dependents_loop_closed[OF assms(1)] further.IH show ?case
    by auto
qed

lemma truthy_ids_member: "Some b \<in> set ys \<Longrightarrow> b \<noteq> [] \<Longrightarrow> b \<in> set (truthy_ids ys)"
  by (induction ys rule: truthy_ids.induct) auto

lemma get_all_dependent_tasks_complete:
  assumes "get_all_dependent_tasks m pid = Some dependents" and "reaches m pid b" and "b \<noteq> []"
  shows "b \<in> set dependents"
proof -
  from assms(1) obtain y where y: "dependents_loop m [] [Some pid] = Some y"
    and d: "dependents = truthy_ids y"
    by (auto simp add: get_all_dependent_tasks_def)
  from dependents_loop_reaches[OF y assms(2)] assms(3) show ?thesis
    unfolding d by (rule truthy_ids_member)
qed

section \<open>Properties of the task resolver\<close>

lemma parse_Some_truthy: "parse env x = Some s \<Longrightarrow> truthy x"
  by (cases x) (auto split: if_splits)

lemma not_truthy_parse: "\<not> truthy x \<Longrightarrow> parse env x = None"
  by (cases x) auto

lemma diff_exceeds_simps [simp]:
  "diff_exceeds_10_years env None b = False"
  "diff_exceeds_10_years env a None = False"
  "diff_exceeds_10_years env (Some x) (Some y) = (diff_year env x y > 10)"
  by (simp_all add: diff_exceeds_10_years_def split: option.splits)

lemma ms_per_day_pos: "0 < ms_per_day"
  by (simp add: ms_per_day_def ms_per_hour_def)

lemma day_is_24_hours: "24 * ms_per_hour = ms_per_day"
  by (simp add: ms_per_day_def)

lemma mod_zero_lift:
  fixes t b c :: int
  assumes "c dvd b" "(t mod b) div c = 0" "t mod c = 0"
  shows "t mod b = 0"
proof -
  have "t mod b = c * ((t mod b) div c) + (t mod b) mod c"
    by simp
  also have "(t mod b) mod c = t mod c"
    using assms(1) by (rule mod_mod_cancel)
  finally show ?thesis
    using assms(2,3) by simp
qed

text \<open>Hours, minutes, seconds and milliseconds are all zero exactly at midnight.\<close>

lemma zero_time_components_iff: "zero_time_components (Some t) \<longleftrightarrow> t mod ms_per_day = 0"
proof
  assume "zero_time_components (Some t)"
  then have a: "(t mod 86400000) div 3600000 = 0" and b: "(t mod 3600000) div 60000 = 0"
    and c: "(t mod 60000) div 1000 = 0" and d: "t mod 1000 = 0"
    by (simp_all add: zero_time_components_def time_values_def ms_per_day_def ms_per_hour_def)
  have "t mod 60000 = 0"
    by (rule mod_zero_lift[OF _ c d]) simp
  then have "t mod 3600000 = 0"
    by (intro mod_zero_lift[OF _ b]) simp_all
  then have "t mod 86400000 = 0"
    by (intro mod_zero_lift[OF _ a]) simp_all
  then show "t mod ms_per_day = 0"
    by (simp add: ms_per_day_def ms_per_hour_def)
next
  assume z: "t mod ms_per_day = 0"
  then have "(86400000::int) dvd t"
    by (simp add: ms_per_day_def ms_per_hour_def mod_eq_0_iff_dvd)
  then have "(3600000::int) dvd t" "(60000::int) dvd t" "(1000::int) dvd t"
    by (auto elim: dvd_trans[rotated])
  then show "zero_time_components (Some t)"
    using z
    by (simp add: zero_time_components_def time_values_def ms_per_day_def ms_per_hour_def
        mod_eq_0_iff_dvd)
qed

lemma end_of_day_Some:
  "end_of_day (Some t) = Some (if t mod ms_per_day = 0 then t + ms_per_day else t)"
  by (simp add: end_of_day_def zero_time_components_iff add_def day_is_24_hours)

subsection \<open>What each statement does to the fields\<close>

lemma spread_task_fields [simp]:
  "r_start (spread_task env i task) = t_start task"
  "r_end (spread_task env i task) = t_end task"
  "startResolved (spread_task env i task) = parse env (t_start task)"
  "endResolved (spread_task env i task) = parse env (t_end task)"
  "invalid (spread_task env i task) = False"
  "dependencies (spread_task env i task) = resolve_dependencies (t_dependencies task)"
  by (simp_all add: spread_task_def)

lemma clamp_duration_fields [simp]:
  "r_start (clamp_duration env r) = r_start r"
  "r_end (clamp_duration env r) =
     (if diff_exceeds_10_years env (endResolved r) (startResolved r) then Absent else r_end r)"
  "startResolved (clamp_duration env r) = startResolved r"
  "endResolved (clamp_duration env r) = endResolved r"
  "invalid (clamp_duration env r) = invalid r"
  "dependencies (clamp_duration env r) = dependencies r"
  by (simp_all add: clamp_duration_def)

lemma repair_both_missing_fields [simp]:
  "r_start (repair_both_missing env r) = r_start r"
  "r_end (repair_both_missing env r) = r_end r"
  "startResolved (repair_both_missing env r) =
     (if \<not> truthy (r_start r) \<and> \<not> truthy (r_end r) then Some (today env) else startResolved r)"
  "endResolved (repair_both_missing env r) =
     (if \<not> truthy (r_start r) \<and> \<not> truthy (r_end r) then add (Some (today env)) 2 Day
      else endResolved r)"
  "invalid (repair_both_missing env r) = invalid r"
  "dependencies (repair_both_missing env r) = dependencies r"
  by (simp_all add: repair_both_missing_def)

lemma repair_start_missing_fields [simp]:
  "r_start (repair_start_missing r) = r_start r"
  "r_end (repair_start_missing r) = r_end r"
  "startResolved (repair_start_missing r) =
     (if \<not> truthy (r_start r) \<and> truthy (r_end r) then add (endResolved r) (- 2) Day
      else startResolved r)"
  "endResolved (repair_start_missing r) = endResolved r"
  "invalid (repair_start_missing r) = invalid r"
  "dependencies (repair_start_missing r) = dependencies r"
  by (simp_all add: repair_start_missing_def)

lemma repair_end_missing_fields [simp]:
  "r_start (repair_end_missing r) = r_start r"
  "r_end (repair_end_missing r) = r_end r"
  "startResolved (repair_end_missing r) = startResolved r"
  "endResolved (repair_end_missing r) =
     (if truthy (r_start r) \<and> \<not> truthy (r_end r) then add (startResolved r) 2 Day
      else endResolved r)"
  "invalid (repair_end_missing r) = invalid r"
  "dependencies (repair_end_missing r) = dependencies r"
  by (simp_all add: repair_end_missing_def)

lemma full_last_day_fields [simp]:
  "r_start (full_last_day r) = r_start r"
  "r_end (full_last_day r) = r_end r"
  "startResolved (full_last_day r) = startResolved r"
  "endResolved (full_last_day r) = end_of_day (endResolved r)"
  "invalid (full_last_day r) = invalid r"
  "dependencies (full_last_day r) = dependencies r"
  by (simp_all add: full_last_day_def end_of_day_def)

lemma flag_invalid_fields [simp]:
  "r_start (flag_invalid r) = r_start r"
  "r_end (flag_invalid r) = r_end r"
  "startResolved (flag_invalid r) = startResolved r"
  "endResolved (flag_invalid r) = endResolved r"
  "invalid (flag_invalid r) = (\<not> truthy (r_start r) \<or> \<not> truthy (r_end r) \<or> invalid r)"
  "dependencies (flag_invalid r) = dependencies r"
  by (auto simp add: flag_invalid_def)

lemma assign_id_fields [simp]:
  "r_start (assign_id env i r) = r_start r"
  "r_end (assign_id env i r) = r_end r"
  "startResolved (assign_id env i r) = startResolved r"
  "endResolved (assign_id env i r) = endResolved r"
  "invalid (assign_id env i r) = invalid r"
  "dependencies (assign_id env i r) = dependencies r"
  by (simp_all add: assign_id_def)

subsection \<open>The resolved fields in closed form\<close>

lemma r_end_setup_task:
  "r_end (setup_task env i task) =
     (if diff_exceeds_10_years env (parse env (t_end task)) (parse env (t_start task))
      then Absent else t_end task)"
  by (simp add: setup_task_def)

lemma startResolved_setup_task:
  "startResolved (setup_task env i task) =
     (if truthy (t_start task) then parse env (t_start task)
      else if end_kept env task then add (parse env (t_end task)) (- 2) Day
      else Some (today env))"
  by (simp add: setup_task_def end_kept_def)

lemma endResolved_setup_task:
  "endResolved (setup_task env i task) =
     end_of_day
       (if end_kept env task then parse env (t_end task)
        else if truthy (t_start task) then add (parse env (t_start task)) 2 Day
        else add (Some (today env)) 2 Day)"
  by (simp add: setup_task_def end_kept_def)

lemma invalid_setup_task:
  "invalid (setup_task env i task) \<longleftrightarrow> \<not> truthy (t_start task) \<or> \<not> end_kept env task"
  by (auto simp add: setup_task_def end_kept_def)

lemma dependencies_setup_task:
  "dependencies (setup_task env i task) = resolve_dependencies (t_dependencies task)"
  by (simp add: setup_task_def)

lemma sample_task_fields:
  "t_start (sample_task s e d) = s"
  "t_end (sample_task s e d) = e"
  "t_dependencies (sample_task s e d) = d"
  by (simp_all add: sample_task_def)

lemma sample_env_fields:
  "today sample_env = 0"
  "diff_year sample_env = year_of_365_days"
  by (simp_all add: sample_env_def)

subsection \<open>Order of the resolved bounds\<close>

text \<open>
  Counterexample to claim C2 as stated: a task that starts on day 10 and ends on day 5.
  Both bounds are dates, no repair applies, and the end, moved to the end of its day,
  is day 6: the resolved end is before the resolved start.
\<close>

theorem inverted_bounds_stay_inverted:
  "\<not> date_gt (endResolved (setup_task sample_env 0 inverted_task))
       (startResolved (setup_task sample_env 0 inverted_task))"
  by (simp add: startResolved_setup_task endResolved_setup_task end_kept_def inverted_task_def
      sample_task_fields sample_env_fields end_of_day_Some date_gt_def year_of_365_days_def
      ms_per_day_def ms_per_hour_def)

text \<open>
  Claim C2, amended: for every raw task whose start and end are each missing or a date
  and, when both are dates, whose start is before the end or equal to it with an end
  that has no time of day, the task produced by \<open>setup_tasks\<close> satisfies
  \<open>endResolved > startResolved\<close>.
\<close>

theorem resolved_end_after_start:
  assumes "repairable env (t_start task)" and "repairable env (t_end task)"
    and "ordered_bounds env task"
  shows "date_gt (endResolved (setup_task env i task)) (startResolved (setup_task env i task))"
proof (cases "end_kept env task")
  case True
  then have "truthy (t_end task)"
    by (simp add: end_kept_def)
  then obtain e where e: "parse env (t_end task) = Some e"
    using assms(2) by (auto simp: repairable_def)
  show ?thesis
  proof (cases "truthy (t_start task)")
    case ts: True
    then obtain s where s: "parse env (t_start task) = Some s"
      using assms(1) by (auto simp: repairable_def)
    from assms(3) s e have "s < e \<or> (s = e \<and> zero_time_components (Some e))"
      by (simp add: ordered_bounds_def)
    then have "date_gt (end_of_day (Some e)) (Some s)"
      using ms_per_day_pos
      by (auto simp add: end_of_day_Some date_gt_def zero_time_components_iff)
    with True ts s e show ?thesis
      by (simp add: startResolved_setup_task endResolved_setup_task)
  next
    case False
    have "date_gt (end_of_day (Some e)) (Some (e - 2 * ms_per_day))"
      using ms_per_day_pos by (simp add: end_of_day_Some date_gt_def)
    with True False e show ?thesis
      by (simp add: startResolved_setup_task endResolved_setup_task add_def)
  qed
next
  case False
  show ?thesis
  proof (cases "truthy (t_start task)")
    case ts: True
    then obtain s where s: "parse env (t_start task) = Some s"
      using assms(1) by (auto simp: repairable_def)
    have "date_gt (end_of_day (Some (s + 2 * ms_per_day))) (Some s)"
      using ms_per_day_pos by (simp add: end_of_day_Some date_gt_def)
    with False ts s show ?thesis
      by (simp add: startResolved_setup_task endResolved_setup_task add_def)
  next
    case fs: False
    have "date_gt (end_of_day (Some (today env + 2 * ms_per_day))) (Some (today env))"
      using ms_per_day_pos by (simp add: end_of_day_Some date_gt_def)
    with False fs show ?thesis
      by (simp add: startResolved_setup_task endResolved_setup_task add_def)
  qed
qed

text \<open>Witness for C2, amended: a task from day 0 to day 1.\<close>

theorem resolved_end_after_start_witness:
  "repairable sample_env (t_start one_day_task) \<and> repairable sample_env (t_end one_day_task)
   \<and> ordered_bounds sample_env one_day_task
   \<and> date_gt (endResolved (setup_task sample_env 0 one_day_task))
       (startResolved (setup_task sample_env 0 one_day_task))"
proof -
  have a: "repairable sample_env (t_start one_day_task)"
    and b: "repairable sample_env (t_end one_day_task)"
    by (simp_all add: repairable_def one_day_task_def sample_task_fields)
  have c: "ordered_bounds sample_env one_day_task"
    using ms_per_day_pos by (simp add: ordered_bounds_def one_day_task_def sample_task_fields)
  show ?thesis
    using a b c resolved_end_after_start [OF a b c, of 0] by simp
qed

subsection \<open>Tasks with one bound\<close>

text \<open>
  Counterexample to claim C3 as stated: a task whose start is midnight of day 0 and
  whose end is absent. The end is start plus 2 days, which is a midnight again, so the
  last-day rule adds 24 hours: the resolved span is 3 days, not 2.
\<close>

theorem start_only_span_is_three_days:
  "resolved_span (setup_task sample_env 0 start_only_task) = Some (3 * ms_per_day)
   \<and> resolved_span (setup_task sample_env 0 start_only_task) \<noteq> Some (2 * ms_per_day)"
  by (simp add: startResolved_setup_task endResolved_setup_task end_kept_def start_only_task_def
      sample_task_fields end_of_day_Some resolved_span_def add_def ms_per_day_def ms_per_hour_def)

text \<open>
  Claim C3, amended: for every raw task \<open>a\<close> whose start is a date and whose end is
  absent, \<open>startResolved\<close> is that date and \<open>endResolved - startResolved\<close> is exactly
  2 days when the start has a time of day, and 3 days (2 days and the 24 hours of the
  last-day rule) when it has none; symmetrically, for every raw task \<open>b\<close> with only an
  end, \<open>startResolved\<close> is exactly 2 days before the given end, and
  \<open>endResolved - startResolved\<close> is 2 days when the end has a time of day and 3 days
  when it has none.
\<close>

theorem one_bound_span:
  assumes "parse env (t_start a) = Some s" and "\<not> truthy (t_end a)"
    and "\<not> truthy (t_start b)" and "parse env (t_end b) = Some e"
  shows "startResolved (setup_task env i a) = Some s
       \<and> resolved_span (setup_task env i a) =
           Some (if s mod ms_per_day = 0 then 3 * ms_per_day else 2 * ms_per_day)
       \<and> startResolved (setup_task env j b) = Some (e - 2 * ms_per_day)
       \<and> resolved_span (setup_task env j b) =
           Some (if e mod ms_per_day = 0 then 3 * ms_per_day else 2 * ms_per_day)"
proof -
  have ta: "truthy (t_start a)"
    using assms(1) by (rule parse_Some_truthy)
  have ka: "\<not> end_kept env a"
    using assms(2) by (simp add: end_kept_def)
  have sa: "startResolved (setup_task env i a) = Some s"
    using assms(1) ta by (simp add: startResolved_setup_task)
  have ea: "endResolved (setup_task env i a) = end_of_day (Some (s + 2 * ms_per_day))"
    using assms(1) ta ka by (simp add: endResolved_setup_task add_def)
  have "parse env (t_start b) = None"
    using assms(3) by (rule not_truthy_parse)
  moreover have "truthy (t_end b)"
    using assms(4) by (rule parse_Some_truthy)
  ultimately have kb: "end_kept env b"
    by (simp add: end_kept_def)
  have sb: "startResolved (setup_task env j b) = Some (e - 2 * ms_per_day)"
    using assms(3,4) kb by (simp add: startResolved_setup_task add_def)
  have eb: "endResolved (setup_task env j b) = end_of_day (Some e)"
    using assms(4) kb by (simp add: endResolved_setup_task)
  have "resolved_span (setup_task env i a) =
      Some (if s mod ms_per_day = 0 then 3 * ms_per_day else 2 * ms_per_day)"
    by (simp add: resolved_span_def sa ea end_of_day_Some)
  moreover have "resolved_span (setup_task env j b) =
      Some (if e mod ms_per_day = 0 then 3 * ms_per_day else 2 * ms_per_day)"
    by (simp add: resolved_span_def sb eb end_of_day_Some)
  ultimately show ?thesis
    using sa sb by simp
qed

text \<open>
  Witness for C3, amended: a task that starts at 15:00 of day 0 with no end, and a task
  that ends at 15:00 of day 0 with no start; both span exactly 2 days.
\<close>

theorem one_bound_span_witness:
  "parse sample_env (t_start afternoon_start_task) = Some (15 * ms_per_hour)
   \<and> \<not> truthy (t_end afternoon_start_task)
   \<and> \<not> truthy (t_start end_only_task)
   \<and> parse sample_env (t_end end_only_task) = Some (15 * ms_per_hour)
   \<and> resolved_span (setup_task sample_env 0 afternoon_start_task) = Some (2 * ms_per_day)
   \<and> startResolved (setup_task sample_env 1 end_only_task) = Some (15 * ms_per_hour - 2 * ms_per_day)
   \<and> resolved_span (setup_task sample_env 1 end_only_task) = Some (2 * ms_per_day)"
proof -
  have a: "parse sample_env (t_start afternoon_start_task) = Some (15 * ms_per_hour)"
    and b: "\<not> truthy (t_end afternoon_start_task)"
    by (simp_all add: afternoon_start_task_def sample_task_fields)
  have c: "\<not> truthy (t_start end_only_task)"
    and d: "parse sample_env (t_end end_only_task) = Some (15 * ms_per_hour)"
    by (simp_all add: end_only_task_def sample_task_fields)
  have m: "(15 * ms_per_hour) mod ms_per_day \<noteq> 0"
    by (simp add: ms_per_day_def ms_per_hour_def)
  show ?thesis
    using a b c d m one_bound_span [OF a b c d, of 0 1] by simp
qed

subsection \<open>Dependencies of a resolved task\<close>

text \<open>What the resolver does with a string and with a list.\<close>

lemma resolve_dependencies_string:
  "resolve_dependencies (DepsStr s) = Some (filter (\<lambda>d. d \<noteq> []) (map trim (split_comma s)))"
  by (simp add: resolve_dependencies_def parse_dependency_string_def)

lemma resolve_dependencies_list: "resolve_dependencies (DepsList l) = Some l"
  by (simp add: resolve_dependencies_def array_truthy_def)

lemma resolve_dependencies_example:
  "resolve_dependencies (DepsStr '' T1, T2 ,,T3 '') = Some [''T1'', ''T2'', ''T3'']"
  by (simp add: resolve_dependencies_string trim_def is_space_def)

text \<open>
  Claim C4: a dependencies string is split at commas, trimmed and freed of empty
  entries, a list is accepted, and an absent field yields the empty set. The code
  handles the string and the list so, but not the absent field: the test
  \<open>else if (dependencies)\<close> reads the local array, which is always truthy, and the
  absent field is copied. The resolved \<open>dependencies\<close> is \<open>undefined\<close>, not the empty
  list, and \<open>setupDependencies\<close> then throws a \<open>TypeError\<close>.
\<close>

theorem absent_dependencies_stay_undefined:
  "dependencies (setup_task sample_env 0 no_dependencies_task) = None
   \<and> dependencies (setup_task sample_env 0 no_dependencies_task) \<noteq> Some []
   \<and> setup_tasks sample_env [no_dependencies_task] = Inl TypeError"
  by (simp add: dependencies_setup_task no_dependencies_task_def sample_task_fields
      resolve_dependencies_def array_truthy_def setup_tasks_def resolve_all_def
      setupDependencies_def)

subsection \<open>Over-long durations\<close>

text \<open>
  Claim C10: for every raw task whose parsed start and end are both dates and whose
  duration exceeds 10 years, the resolver discards the raw end, resolves
  \<open>endResolved\<close> to \<open>startResolved\<close> plus 2 days, plus 24 hours when that point has
  zero time components, and marks the task invalid.
\<close>

theorem over_long_duration_repaired:
  assumes "parse env (t_start task) = Some s" and "parse env (t_end task) = Some e"
    and "diff_year env e s > 10"
  shows "r_end (setup_task env i task) = Absent
       \<and> startResolved (setup_task env i task) = Some s
       \<and> endResolved (setup_task env i task) =
           (if zero_time_components (Some (s + 2 * ms_per_day))
            then Some (s + 2 * ms_per_day + 24 * ms_per_hour) else Some (s + 2 * ms_per_day))
       \<and> invalid (setup_task env i task)"
proof -
  have t: "truthy (t_start task)"
    using assms(1) by (rule parse_Some_truthy)
  have k: "\<not> end_kept env task"
    using assms by (simp add: end_kept_def)
  show ?thesis
    using assms t k
    by (simp add: r_end_setup_task startResolved_setup_task endResolved_setup_task
        invalid_setup_task end_of_day_def add_def)
qed

text \<open>Witness for C10: a task from day 0 to day 4000, almost 11 years of 365 days.\<close>

theorem over_long_duration_repaired_witness:
  "parse sample_env (t_start long_task) = Some 0
   \<and> parse sample_env (t_end long_task) = Some (4000 * ms_per_day)
   \<and> diff_year sample_env (4000 * ms_per_day) 0 > 10
   \<and> r_end (setup_task sample_env 0 long_task) = Absent
   \<and> startResolved (setup_task sample_env 0 long_task) = Some 0
   \<and> endResolved (setup_task sample_env 0 long_task) = Some (3 * ms_per_day)
   \<and> invalid (setup_task sample_env 0 long_task)"
proof -
  have a: "parse sample_env (t_start long_task) = Some 0"
    and b: "parse sample_env (t_end long_task) = Some (4000 * ms_per_day)"
    by (simp_all add: long_task_def sample_task_fields)
  have c: "diff_year sample_env (4000 * ms_per_day) 0 > 10"
    by (simp add: sample_env_fields year_of_365_days_def ms_per_day_def ms_per_hour_def)
  have z: "zero_time_components (Some (0 + 2 * ms_per_day))"
    by (simp add: zero_time_components_iff)
  show ?thesis
    using a b c z over_long_duration_repaired [OF a b c, of 0]
    by (simp add: day_is_24_hours)
qed

section \<open>Properties of the view scale\<close>






text \<open>A drawing that throws is not caught: the error leaves the method and no event is fired.\<close>

lemma change_view_mode_render_throws:
  "thrown (change_view_mode returns throws mode_arg opts) = Some TypeError
   \<and> fired (change_view_mode returns throws mode_arg opts) = []"
  by (simp add: change_view_mode_def returns_def throws_def Let_def split: prod.splits)

text \<open>Every mode of the enumeration sets its own step and column width, without error.\<close>

lemma known_mode_scale:
  "map (\<lambda>mode. update_view_scale mode opts) VIEW_MODE =
     [(\<lparr>view_mode = ''Quarter Day'', step = 6, column_width = 38\<rparr>, []),
      (\<lparr>view_mode = ''Half Day'', step = 12, column_width = 38\<rparr>, []),
      (\<lparr>view_mode = ''Day'', step = 24, column_width = 38\<rparr>, []),
      (\<lparr>view_mode = ''Week'', step = 168, column_width = 140\<rparr>, []),
      (\<lparr>view_mode = ''Month'', step = 720, column_width = 120\<rparr>, []),
      (\<lparr>view_mode = ''Year'', step = 8760, column_width = 120\<rparr>, [])]"
  by (simp add: VIEW_MODE_def update_view_scale_def Let_def)

section \<open>Properties of snapping\<close>

lemma get_snap_position_snap_to: "get_snap_position opts dx = snap_to (granularity opts) dx"
  by (simp add: get_snap_position_def snap_to_def granularity_def Let_def)

lemma floor_add_half:
  fixes x :: rat
  shows "\<lfloor>x + 1 / 2\<rfloor> = (if x - of_int \<lfloor>x\<rfloor> < 1 / 2 then \<lfloor>x\<rfloor> else \<lfloor>x\<rfloor> + 1)"
proof (cases "x - of_int \<lfloor>x\<rfloor> < 1 / 2")
  case True
  have "\<lfloor>x + 1 / 2\<rfloor> = \<lfloor>x\<rfloor>"
  proof (rule floor_unique)
    show "of_int \<lfloor>x\<rfloor> \<le> x + 1 / 2"
      using of_int_floor_le[of x] by linarith
    show "x + 1 / 2 < of_int \<lfloor>x\<rfloor> + 1"
      using True by linarith
  qed
  with True show ?thesis by simp
next
  case False
  have "\<lfloor>x + 1 / 2\<rfloor> = \<lfloor>x\<rfloor> + 1"
  proof (rule floor_unique)
    show "of_int (\<lfloor>x\<rfloor> + 1) \<le> x + 1 / 2"
      using False by simp
    show "x + 1 / 2 < of_int (\<lfloor>x\<rfloor> + 1) + 1"
      using floor_correct[of x] by (simp, linarith?)
  qed
  with False show ?thesis by simp
qed

text \<open>
  For a pixel delta that is not negative the code rounds to the nearest multiple of the
  granularity, a tie going up.
\<close>

lemma snap_to_nonneg:
  assumes "0 < g" and "0 \<le> dx"
  shows "snap_to g dx = nearest_snap g dx"
proof -
  have r: "js_rem dx g = g * (dx / g - of_int \<lfloor>dx / g\<rfloor>)"
    using assms by (simp add: js_rem_def truncate_quotient_def right_diff_distrib)
  have half: "js_rem dx g < g / 2 \<longleftrightarrow> dx / g - of_int \<lfloor>dx / g\<rfloor> < 1 / 2"
  proof -
    have "js_rem dx g < g / 2 \<longleftrightarrow> g * (dx / g - of_int \<lfloor>dx / g\<rfloor>) < g * (1 / 2)"
      by (simp add: r)
    also have "\<dots> \<longleftrightarrow> dx / g - of_int \<lfloor>dx / g\<rfloor> < 1 / 2"
      using assms(1) by (rule mult_less_cancel_left_pos)
    finally show ?thesis .
  qed
  have base: "dx - js_rem dx g = g * of_int \<lfloor>dx / g\<rfloor>"
    using assms by (simp add: r right_diff_distrib)
  have s: "snap_to g dx = g * of_int \<lfloor>dx / g + 1 / 2\<rfloor>"
    unfolding snap_to_def base half floor_add_half[of "dx / g"]
    by (simp add: distrib_left)
  show ?thesis
  proof (cases "dx = 0")
    case True
    then show ?thesis
      using assms(1) by (simp add: snap_to_def js_rem_def truncate_quotient_def nearest_snap_def)
  next
    case False
    with assms(2) have "0 < dx" by simp
    then show ?thesis
      by (simp add: s nearest_snap_def)
  qed
qed

text \<open>
  For a negative pixel delta the remainder is not positive, the test against half the
  granularity always succeeds, and the code truncates toward zero.
\<close>

lemma snap_to_negative:
  assumes "0 < g" and "dx < 0"
  shows "snap_to g dx = g * of_int \<lceil>dx / g\<rceil>"
proof -
  have q: "dx / g < 0"
    using assms by (simp add: divide_neg_pos)
  then have r: "js_rem dx g = dx - g * of_int \<lceil>dx / g\<rceil>"
    by (simp add: js_rem_def truncate_quotient_def)
  have "dx / g \<le> of_int \<lceil>dx / g\<rceil>"
    by (rule le_of_int_ceiling)
  then have "g * (dx / g) \<le> g * of_int \<lceil>dx / g\<rceil>"
    using assms(1) by (intro mult_left_mono) simp_all
  then have "dx \<le> g * of_int \<lceil>dx / g\<rceil>"
    using assms(1) by simp
  then have "js_rem dx g \<le> 0"
    by (simp add: r)
  then have "js_rem dx g < g / 2"
    using assms(1) by simp
  then show ?thesis
    by (simp add: snap_to_def r)
qed

text \<open>
  Claim C6: for every pixel delta, positive, negative or zero, \<open>get_snap_position\<close>
  rounds to the nearest multiple of the granularity of the view mode, a tie going away
  from zero. The code does so for deltas that are not negative, but not for negative
  ones: in the Day view, with a column of 38 pixels, a delta of \<open>-30\<close> snaps to \<open>0\<close>,
  while the nearest multiple of 38 is \<open>-38\<close>.
\<close>

theorem negative_delta_truncated:
  "get_snap_position day_options (- 30) = 0
   \<and> nearest_snap (granularity day_options) (- 30) = - 38"
  by code_simp

section \<open>Properties of the interaction\<close>

subsection \<open>Bars and references\<close>

lemma for_each_bar_Nil [simp]: "for_each_bar f [] all_bars = all_bars"
  by (simp add: for_each_bar_def)

lemma for_each_bar_Cons [simp]:
  "for_each_bar f (i # refs) all_bars = for_each_bar f refs (all_bars[i := f (all_bars ! i)])"
  by (simp add: for_each_bar_def)

lemma length_for_each_bar [simp]: "length (for_each_bar f refs all_bars) = length all_bars"
  by (induction refs arbitrary: all_bars) simp_all

lemma for_each_bar_nth:
  assumes "\<And>b. f (f b) = f b" and "j < length all_bars"
  shows "for_each_bar f refs all_bars ! j = (if j \<in> set refs then f (all_bars ! j) else all_bars ! j)"
  using assms(2)
proof (induction refs arbitrary: all_bars)
  case Nil
  then show ?case by simp
next
  case (Cons i refs)
  then show ?case
    by (cases "i = j") (simp_all add: assms(1))
qed

lemma get_bar_Some:
  assumes "get_bar all_bars tid = Some j"
  shows "j < length all_bars \<and> bar_task_id (all_bars ! j) = tid"
  using assms
proof (induction all_bars arbitrary: j)
  case Nil
  then show ?case by simp
next
  case (Cons b bs)
  then show ?case
    by (cases "bar_task_id b = tid") auto
qed

lemma those_eq_Some: "those xs = Some ys \<Longrightarrow> xs = map Some ys"
proof (induction xs arbitrary: ys)
  case Nil
  then show ?case by simp
next
  case (Cons x xs)
  then show ?case
    by (cases x; cases "those xs") auto
qed

lemma refs_of_ids:
  assumes "those (map (get_bar all_bars) ids) = Some refs"
  shows "j \<in> set refs \<longleftrightarrow> (\<exists>tid \<in> set ids. get_bar all_bars tid = Some j)"
proof -
  have "map (get_bar all_bars) ids = map Some refs"
    using assms by (rule those_eq_Some)
  then have "get_bar all_bars ` set ids = Some ` set refs"
    by (metis list.set_map)
  then show ?thesis
    by (auto simp: image_iff set_eq_iff) (metis option.inject)+
qed


subsection \<open>Dragging and resizing\<close>

lemma snapshot_fields [simp]:
  "bar_task_id (snapshot b) = bar_task_id b"
  "bar_x (snapshot b) = bar_x b"
  "bar_width (snapshot b) = bar_width b"
  "ox (snapshot b) = bar_x b"
  "owidth (snapshot b) = bar_width b"
  by (simp_all add: snapshot_def)

lemma snapshot_twice: "snapshot (snapshot b) = snapshot b"
  by (simp add: snapshot_def)

lemma move_bar_kept [simp]:
  "bar_task_id (move_bar opts g dx b) = bar_task_id b"
  "ox (move_bar opts g dx b) = ox b"
  "owidth (move_bar opts g dx b) = owidth b"
  by (simp_all add: move_bar_def update_bar_position_def Let_def)

lemma move_bar_absorbs:
  "move_bar opts g dx' (move_bar opts g dx b) = move_bar opts g dx' b"
  by (simp add: move_bar_def update_bar_position_def Let_def)

lemma move_bar_dragging:
  assumes "is_dragging g" "\<not> is_resizing_left g" "\<not> is_resizing_right g"
  shows "bar_x (move_bar opts g dx b) = ox b + get_snap_position opts dx"
    and "bar_width (move_bar opts g dx b) = bar_width b"
  using assms by (simp_all add: move_bar_def update_bar_position_def Let_def)


lemma mousemove_in_progress:
  assumes "action_in_progress g"
  shows "mousemove opts offset (g, all_bars) =
    (g, for_each_bar (move_bar opts g (fst offset - x_on_start g)) (bars g) all_bars)"
  using assms by (simp add: mousemove_def Let_def)

lemma mousemoves_Cons:
  "mousemoves opts (offset # offsets) s = mousemoves opts offsets (mousemove opts offset s)"
  by (simp add: mousemoves_def)

lemma mousemoves_bars:
  assumes "action_in_progress g"
  shows "fst (mousemoves opts offsets (g, all_bars)) = g
    \<and> length (snd (mousemoves opts offsets (g, all_bars))) = length all_bars
    \<and> (\<forall>j < length all_bars. snd (mousemoves opts offsets (g, all_bars)) ! j =
         (if j \<in> set (bars g) \<and> offsets \<noteq> []
          then move_bar opts g (fst (last offsets) - x_on_start g) (all_bars ! j)
          else all_bars ! j))"
proof (induction offsets arbitrary: all_bars)
  case Nil
  show ?case by (simp add: mousemoves_def)
next
  case (Cons offset offsets)
  define step where "step = for_each_bar (move_bar opts g (fst offset - x_on_start g)) (bars g) all_bars"
  have unfold: "mousemoves opts (offset # offsets) (g, all_bars) = mousemoves opts offsets (g, step)"
    by (simp add: mousemoves_Cons mousemove_in_progress[OF assms] step_def)
  have len: "length step = length all_bars"
    by (simp add: step_def)
  have nth: "step ! j = (if j \<in> set (bars g) then move_bar opts g (fst offset - x_on_start g) (all_bars ! j)
      else all_bars ! j)" if "j < length all_bars" for j
    unfolding step_def using that by (intro for_each_bar_nth) (rule move_bar_absorbs)
  from Cons[of step] show ?case
    unfolding unfold by (auto simp add: len nth move_bar_absorbs)
qed

lemma mousedown_returns:
  assumes "mousedown m element pid offset (g, all_bars) = Some (Inr (g1, all1))"
  obtains dependents refs where
    "get_all_dependent_tasks m pid = Some dependents"
    "those (map (get_bar all_bars) (pid # dependents)) = Some refs"
    "g1 = (grab element g)\<lparr>x_on_start := fst offset, y_on_start := snd offset,
            parent_bar_id := Some pid, bars := refs, bar_being_dragged := Some pid\<rparr>"
    "all1 = for_each_bar snapshot refs all_bars"
  using assms
  by (auto simp add: mousedown_def Let_def split: option.splits)


lemma grab_flags:
  "is_dragging (grab BarWrapper g)"
  "is_resizing_left (grab BarWrapper g) = is_resizing_left g"
  "is_resizing_right (grab BarWrapper g) = is_resizing_right g"
  "is_resizing_right (grab HandleRight g)"
  "is_resizing_left (grab HandleRight g) = is_resizing_left g"
  by simp_all

text \<open>
  A drag of the bar of \<open>pid\<close>: after any sequence of move events, the bar of every id
  that the traversal returned sits at its x of the pointer-down plus the snapped delta
  of the last event, as wide as before.
\<close>

lemma dragging_places_listed_bars:
  assumes down: "mousedown m BarWrapper pid (x0, y0) (g, all_bars) = Some (Inr s1)"
    and idle: "\<not> is_resizing_left g" "\<not> is_resizing_right g"
    and deps: "get_all_dependent_tasks m pid = Some dependents"
    and tid: "tid \<in> set (pid # dependents)"
    and bar: "get_bar all_bars tid = Some j"
  shows "bar_x (snd (mousemoves opts (offsets @ [offset]) s1) ! j)
           = bar_x (all_bars ! j) + get_snap_position opts (fst offset - x0)
       \<and> bar_width (snd (mousemoves opts (offsets @ [offset]) s1) ! j) = bar_width (all_bars ! j)"
proof -
  obtain g1 all1 where s1: "s1 = (g1, all1)"
    by (cases s1)
  from down[unfolded s1] obtain dependents' refs where
    d: "get_all_dependent_tasks m pid = Some dependents'"
    and refs: "those (map (get_bar all_bars) (pid # dependents')) = Some refs"
    and g1: "g1 = (grab BarWrapper g)\<lparr>x_on_start := fst (x0, y0), y_on_start := snd (x0, y0),
            parent_bar_id := Some pid, bars := refs, bar_being_dragged := Some pid\<rparr>"
    and all1: "all1 = for_each_bar snapshot refs all_bars"
    by (rule mousedown_returns)
  from d deps have "dependents' = dependents"
    by simp
  with refs tid bar have j: "j \<in> set refs"
    by (auto simp add: refs_of_ids[OF refs])
  have jlen: "j < length all_bars"
    using get_bar_Some[OF bar] by simp
  have flags: "is_dragging g1" "\<not> is_resizing_left g1" "\<not> is_resizing_right g1"
    and x: "x_on_start g1 = x0" and b: "bars g1 = refs"
    using idle by (simp_all add: g1)
  have prog: "action_in_progress g1"
    using flags by (simp add: action_in_progress_def)
  have start: "all1 ! j = snapshot (all_bars ! j)"
    unfolding all1 using jlen j by (simp add: for_each_bar_nth snapshot_twice)
  have "snd (mousemoves opts (offsets @ [offset]) (g1, all1)) ! j
      = move_bar opts g1 (fst offset - x0) (snapshot (all_bars ! j))"
    using mousemoves_bars[OF prog, of opts "offsets @ [offset]" all1] jlen j
    by (simp add: all1 b x start[unfolded all1])
  then show ?thesis
    by (simp add: s1 move_bar_dragging[OF flags])
qed

text \<open>
  Claim C7: during a Dragging gesture, for every move event with snapped cumulative
  delta \<open>d\<close>, every bar in the affected set (the grabbed task and its transitive
  dependents) is placed at its gesture-start snapshot x plus \<open>d\<close>, computed from the
  snapshot and the current delta and not from the previous frame, and its width is
  unchanged. Stated for the last of any sequence of move events after the pointer-down
  on the bar of \<open>pid\<close>, for the bar \<open>j\<close> of any task \<open>tid\<close> that is \<open>pid\<close> itself or
  is reached from \<open>pid\<close> by a chain of dependency edges of any length (an id is never
  empty after resolution).
\<close>

theorem dragging_moves_transitive_dependents:
  assumes down: "mousedown m BarWrapper pid (x0, y0) (g, all_bars) = Some (Inr s1)"
    and idle: "\<not> is_resizing_left g" "\<not> is_resizing_right g"
    and affected: "tid = pid \<or> (reaches m pid tid \<and> tid \<noteq> [])"
    and bar: "get_bar all_bars tid = Some j"
  shows "bar_x (snd (mousemoves opts (offsets @ [offset]) s1) ! j)
           = bar_x (all_bars ! j) + get_snap_position opts (fst offset - x0)
       \<and> bar_width (snd (mousemoves opts (offsets @ [offset]) s1) ! j) = bar_width (all_bars ! j)"
proof -
  obtain g1 all1 where s1: "s1 = (g1, all1)"
    by (cases s1)
  from down[unfolded s1] obtain dependents where
    deps: "get_all_dependent_tasks m pid = Some dependents"
    by (rule mousedown_returns)
  have "tid \<in> set (pid # dependents)"
    using affected get_all_dependent_tasks_complete[OF deps, of tid] by auto
  then show ?thesis
    by (rule dragging_places_listed_bars[OF down idle deps _ bar])
qed




subsection \<open>The sample chart\<close>


lemma sample_get_bar:
  "get_bar sample_bars ''T1'' = Some 0"
  "get_bar sample_bars ''T2'' = Some 1"
  by (simp_all add: sample_bars_def sample_bar_def)


lemma sample_bar_geometry:
  "bar_x (sample_bars ! 0) = 38" "bar_width (sample_bars ! 0) = 114"
  "bar_x (sample_bars ! 1) = 190" "bar_width (sample_bars ! 1) = 76"
  "bar_x (sample_bars ! Suc 0) = 190" "bar_width (sample_bars ! Suc 0) = 76"
  "length sample_bars = 2"
  by (simp_all add: sample_bars_def sample_bar_def)

lemma sample_snap: "get_snap_position day_options 60 = 76"
  by code_simp

lemma chain_dependents: "get_all_dependent_tasks chain_map ''T1'' = Some [''T2'', ''T3'']"
  unfolding get_all_dependent_tasks_def chain_map_def
  by (simp add: dependents_loop.simps collect_deps_def concat_lookup_def property_key_def)

lemma chain_get_bar:
  "get_bar chain_bars ''T1'' = Some 0"
  "get_bar chain_bars ''T2'' = Some 1"
  "get_bar chain_bars ''T3'' = Some 2"
  by (simp_all add: chain_bars_def sample_bar_def)

lemma chain_mousedown:
  "mousedown chain_map BarWrapper ''T1'' (100, 70) (idle, chain_bars) = Some (Inr chain_started)"
  by (simp add: chain_started_def mousedown_def chain_dependents chain_get_bar Let_def)

lemma chain_bar_geometry:
  "bar_x (chain_bars ! 2) = 304" "bar_width (chain_bars ! 2) = 38"
  by (simp_all add: chain_bars_def sample_bar_def)

lemma chain_reaches: "reaches chain_map ''T1'' ''T3''"
proof -
  have "reaches chain_map ''T1'' ''T2''"
    by (rule reaches.direct[where ids = "[''T2'']"]) (simp_all add: chain_map_def)
  then show ?thesis
    by (rule reaches.further[where ids = "[''T3'']"]) (simp_all add: chain_map_def)
qed

text \<open>
  Witness for C7: T3 depends on T2, which depends on T1. T1 is grabbed at x = 100 and the
  pointer moves to 120, then to 160. The delta 60 snaps to 76, and the bar of T3, two
  edges away from T1, goes from 304 to 380, as wide as before.
\<close>

theorem dragging_moves_transitive_dependents_witness:
  "mousedown chain_map BarWrapper ''T1'' (100, 70) (idle, chain_bars) = Some (Inr chain_started)
   \<and> \<not> is_resizing_left idle \<and> \<not> is_resizing_right idle
   \<and> reaches chain_map ''T1'' ''T3''
   \<and> get_bar chain_bars ''T3'' = Some 2
   \<and> bar_x (snd (mousemoves day_options ([(120, 70)] @ [(160, 75)]) chain_started) ! 2) = 380
   \<and> bar_width (snd (mousemoves day_options ([(120, 70)] @ [(160, 75)]) chain_started) ! 2) = 38"
proof -
  have a: "\<not> is_resizing_left idle" and b: "\<not> is_resizing_right idle"
    by (simp_all add: idle_def)
  have t: "''T3'' = ''T1'' \<or> (reaches chain_map ''T1'' ''T3'' \<and> ''T3'' \<noteq> [])"
    using chain_reaches by simp
  show ?thesis
    using a b chain_reaches
      dragging_moves_transitive_dependents [OF chain_mousedown a b t chain_get_bar(3),
        of day_options "[(120, 70)]" "(160, 75)"]
    by (simp add: chain_mousedown chain_get_bar chain_bar_geometry sample_snap)
qed




subsection \<open>Resizing the progress\<close>

lemma progress_snapshot_fields [simp]:
  "bar_width (progress_snapshot b) = bar_width b"
  "progress_width (progress_snapshot b) = progress_width b"
  "progress_owidth (progress_snapshot b) = progress_width b"
  "min_dx (progress_snapshot b) = - progress_width b"
  "max_dx (progress_snapshot b) = bar_width b - progress_width b"
  by (simp_all add: progress_snapshot_def)

lemma clamp_dx_bounds:
  assumes "min_dx b \<le> max_dx b"
  shows "min_dx b \<le> clamp_dx b dx" and "clamp_dx b dx \<le> max_dx b"
  using assms by (auto simp add: clamp_dx_def Let_def)

lemma clamp_dx_cong:
  "min_dx b' = min_dx b \<Longrightarrow> max_dx b' = max_dx b \<Longrightarrow> clamp_dx b' dx = clamp_dx b dx"
  by (simp add: clamp_dx_def Let_def)

lemma resize_progress_fields [simp]:
  "bar_width (resize_progress dx b) = bar_width b"
  "bar_x (resize_progress dx b) = bar_x b"
  "progress_owidth (resize_progress dx b) = progress_owidth b"
  "min_dx (resize_progress dx b) = min_dx b"
  "max_dx (resize_progress dx b) = max_dx b"
  "progress_finaldx (resize_progress dx b) = clamp_dx b dx"
  "progress_width (resize_progress dx b) = progress_owidth b + clamp_dx b dx"
  by (simp_all add: resize_progress_def)

lemma resize_progress_absorbs:
  "resize_progress dx' (resize_progress dx b) = resize_progress dx' b"
proof -
  have "clamp_dx (resize_progress dx b) dx' = clamp_dx b dx'"
    by (rule clamp_dx_cong) simp_all
  then show ?thesis
    by (simp add: resize_progress_def)
qed

lemma progress_mousemoves_resizing:
  assumes "is_resizing p" and "progress_bar p = Some i" and "i < length all_bars"
  shows "progress_mousemoves offsets (p, all_bars) =
    Inr (p, if offsets = [] then all_bars
            else all_bars[i := resize_progress (fst (last offsets) - progress_x_on_start p) (all_bars ! i)])"
  using assms(3)
proof (induction offsets arbitrary: all_bars)
  case Nil
  show ?case by simp
next
  case (Cons offset offsets)
  define b where "b = resize_progress (fst offset - progress_x_on_start p) (all_bars ! i)"
  have step: "progress_mousemove offset (p, all_bars) = Inr (p, all_bars[i := b])"
    using assms(1,2) by (simp add: progress_mousemove_def Let_def b_def)
  have len: "i < length (all_bars[i := b])"
    using Cons.prems by simp
  have rest: "progress_mousemoves (offset # offsets) (p, all_bars)
      = progress_mousemoves offsets (p, all_bars[i := b])"
    by (simp add: step)
  show ?case
  proof (cases "offsets = []")
    case True
    then show ?thesis
      by (simp add: step b_def)
  next
    case False
    have "progress_mousemoves offsets (p, all_bars[i := b]) =
      Inr (p, (all_bars[i := b])[i := resize_progress (fst (last offsets) - progress_x_on_start p)
                ((all_bars[i := b]) ! i)])"
      using Cons.IH[OF len] False by simp
    also have "(all_bars[i := b]) ! i = b"
      using Cons.prems by simp
    also have "resize_progress (fst (last offsets) - progress_x_on_start p) b
        = resize_progress (fst (last offsets) - progress_x_on_start p) (all_bars ! i)"
      unfolding b_def by (rule resize_progress_absorbs)
    finally have "progress_mousemoves offsets (p, all_bars[i := b]) =
      Inr (p, all_bars[i := resize_progress (fst (last offsets) - progress_x_on_start p)
                (all_bars ! i)])"
      by simp
    then show ?thesis
      unfolding rest using False by simp
  qed
qed

text \<open>
  Claim C9: during a ResizingProgress gesture, for every move event, the applied delta is
  clamped to \<open>[min_dx, max_dx]\<close> with \<open>min_dx = -progressWidth\<close> and
  \<open>max_dx = barWidth - progressWidth\<close>, so the width of the progress indicator stays
  within \<open>[0, barWidth]\<close>, and no other bar is affected. Stated for the last of any
  sequence of move events after the pointer-down on the progress handle of the bar \<open>i\<close>,
  whose width is not negative, and for any other bar \<open>j\<close>.
\<close>

theorem progress_stays_within_bar:
  assumes down: "progress_mousedown pid (x0, y0) (p, all_bars) = Inr s1"
    and grabbed: "get_bar all_bars pid = Some i"
    and width: "0 \<le> bar_width (all_bars ! i)"
    and other: "j < length all_bars" "j \<noteq> i"
  shows "progress_returns (offsets @ [offset]) s1
    \<and> min_dx (bars_after_progress (offsets @ [offset]) s1 ! i) = - progress_width (all_bars ! i)
    \<and> max_dx (bars_after_progress (offsets @ [offset]) s1 ! i)
        = bar_width (all_bars ! i) - progress_width (all_bars ! i)
    \<and> progress_finaldx (bars_after_progress (offsets @ [offset]) s1 ! i)
        = clamp_dx (bars_after_progress (offsets @ [offset]) s1 ! i) (fst offset - x0)
    \<and> min_dx (bars_after_progress (offsets @ [offset]) s1 ! i)
        \<le> progress_finaldx (bars_after_progress (offsets @ [offset]) s1 ! i)
    \<and> progress_finaldx (bars_after_progress (offsets @ [offset]) s1 ! i)
        \<le> max_dx (bars_after_progress (offsets @ [offset]) s1 ! i)
    \<and> progress_width (bars_after_progress (offsets @ [offset]) s1 ! i)
        = progress_width (all_bars ! i) + progress_finaldx (bars_after_progress (offsets @ [offset]) s1 ! i)
    \<and> 0 \<le> progress_width (bars_after_progress (offsets @ [offset]) s1 ! i)
    \<and> progress_width (bars_after_progress (offsets @ [offset]) s1 ! i)
        \<le> bar_width (bars_after_progress (offsets @ [offset]) s1 ! i)
    \<and> bar_width (bars_after_progress (offsets @ [offset]) s1 ! i) = bar_width (all_bars ! i)
    \<and> bars_after_progress (offsets @ [offset]) s1 ! j = all_bars ! j"
proof -
  have ilen: "i < length all_bars"
    using get_bar_Some[OF grabbed] by simp
  define p1 where "p1 = p\<lparr>is_resizing := True, progress_x_on_start := fst (x0, y0),
                 progress_y_on_start := snd (x0, y0), progress_bar := Some i\<rparr>"
  define b0 where "b0 = progress_snapshot (all_bars ! i)"
  have s1: "s1 = (p1, all_bars[i := b0])"
    using down grabbed by (simp add: progress_mousedown_def p1_def b0_def Let_def)
  have p1: "is_resizing p1" "progress_bar p1 = Some i" "progress_x_on_start p1 = x0"
    by (simp_all add: p1_def)
  define b where "b = resize_progress (fst offset - x0) b0"
  have len0: "i < length (all_bars[i := b0])"
    using ilen by simp
  have run: "progress_mousemoves (offsets @ [offset]) s1 = Inr (p1, all_bars[i := b])"
    unfolding s1 progress_mousemoves_resizing[OF p1(1,2) len0]
    using ilen by (simp add: p1(3) b_def)
  have at_i: "bars_after_progress (offsets @ [offset]) s1 ! i = b"
    and at_j: "bars_after_progress (offsets @ [offset]) s1 ! j = all_bars ! j"
    and ret: "progress_returns (offsets @ [offset]) s1"
    using ilen other by (simp_all add: bars_after_progress_def progress_returns_def run)
  have lo: "min_dx b = - progress_width (all_bars ! i)"
    and hi: "max_dx b = bar_width (all_bars ! i) - progress_width (all_bars ! i)"
    and ow: "progress_owidth b0 = progress_width (all_bars ! i)"
    and bw: "bar_width b = bar_width (all_bars ! i)"
    by (simp_all add: b_def b0_def)
  have "clamp_dx b (fst offset - x0) = clamp_dx b0 (fst offset - x0)"
    unfolding b_def by (rule clamp_dx_cong) simp_all
  then have fin: "progress_finaldx b = clamp_dx b (fst offset - x0)"
    by (simp add: b_def)
  have ord: "min_dx b0 \<le> max_dx b0"
    using width by (simp add: b0_def)
  have bounds: "min_dx b \<le> progress_finaldx b" "progress_finaldx b \<le> max_dx b"
    using clamp_dx_bounds[OF ord, of "fst offset - x0"] by (simp_all add: b_def)
  have pw: "progress_width b = progress_width (all_bars ! i) + progress_finaldx b"
    by (simp add: b_def ow)
  have range: "0 \<le> progress_width b" "progress_width b \<le> bar_width b"
    using bounds by (simp_all add: pw lo hi bw)
  show ?thesis
    unfolding at_i at_j by (intro conjI ret lo hi fin bounds pw range bw refl)
qed

lemma sample_progress_mousedown:
  "progress_mousedown ''T2'' (228, 110) (progress_idle, sample_bars) = Inr progress_started"
  by (simp add: progress_started_def progress_mousedown_def sample_get_bar Let_def)

text \<open>
  Witness for C9: the progress handle of T2 (76 wide, progress 38) is grabbed at x = 228
  and the pointer moves to 120, then to 400. The progress ends at the full width 76, and
  the bar of T1 is as before.
\<close>

theorem progress_stays_within_bar_witness:
  "progress_mousedown ''T2'' (228, 110) (progress_idle, sample_bars) = Inr progress_started
   \<and> get_bar sample_bars ''T2'' = Some 1
   \<and> 0 \<le> bar_width (sample_bars ! 1)
   \<and> (0::nat) < length sample_bars \<and> (0::nat) \<noteq> 1
   \<and> progress_returns ([(120, 70)] @ [(400, 75)]) progress_started
   \<and> 0 \<le> progress_width (bars_after_progress ([(120, 70)] @ [(400, 75)]) progress_started ! 1)
   \<and> progress_width (bars_after_progress ([(120, 70)] @ [(400, 75)]) progress_started ! 1) \<le> 76
   \<and> bars_after_progress ([(120, 70)] @ [(400, 75)]) progress_started ! 0 = sample_bars ! 0"
proof -
  have w: "0 \<le> bar_width (sample_bars ! 1)"
    by (simp add: sample_bar_geometry)
  have l: "(0::nat) < length sample_bars" and n: "(0::nat) \<noteq> 1"
    by (simp_all add: sample_bar_geometry)
  show ?thesis
    using w l progress_stays_within_bar [OF sample_progress_mousedown sample_get_bar(2) w l n, of "[(120, 70)]" "(400, 75)"]
    by (simp add: sample_progress_mousedown sample_get_bar sample_bar_geometry)
qed

end
